theory Spec2Isabelle
  imports Main "HOL-Library.Multiset"
begin

section \<open>Strings\<close>

text \<open>
  A JavaScript string is a sequence of UTF-16 code units; it is modelled as the list of
  their numbers. \<open>str\<close> writes an ASCII literal of the source as such a list.
\<close>

type_synonym jsstring = "nat list"

definition str :: "string \<Rightarrow> jsstring" where
  "str s = map of_char s"

text \<open>
  \<open>String.prototype.trim\<close> strips the code units of WhiteSpace and LineTerminator
  (ECMAScript: TAB, VT, FF, SP, NBSP, ZWNBSP, the space separators, LF, CR, LS, PS)
  from both ends.
\<close>

definition is_space :: "nat \<Rightarrow> bool" where
  "is_space u \<longleftrightarrow>
     u = 0x09 \<or> u = 0x0A \<or> u = 0x0B \<or> u = 0x0C \<or> u = 0x0D \<or> u = 0x20 \<or> u = 0xA0
     \<or> u = 0x1680 \<or> (0x2000 \<le> u \<and> u \<le> 0x200A) \<or> u = 0x2028 \<or> u = 0x2029
     \<or> u = 0x202F \<or> u = 0x205F \<or> u = 0x3000 \<or> u = 0xFEFF"

definition trim :: "jsstring \<Rightarrow> jsstring" where
  "trim s = dropWhile is_space (rev (dropWhile is_space (rev s)))"

text \<open>
  Truthiness of a value that is a string or undefined (\<open>None\<close>): only a non-empty
  string is truthy. \<open>or_else a b\<close> is \<open>a || b\<close> on such values.
\<close>

definition truthy :: "jsstring option \<Rightarrow> bool" where
  "truthy v \<longleftrightarrow> (case v of None \<Rightarrow> False | Some s \<Rightarrow> s \<noteq> [])"

definition or_else :: "jsstring option \<Rightarrow> jsstring option \<Rightarrow> jsstring option" where
  "or_else a b = (if truthy a then a else b)"

text \<open>\<open>or_default a d\<close> is \<open>a || d\<close> where \<open>d\<close> is a string literal.\<close>

definition or_default :: "jsstring option \<Rightarrow> jsstring \<Rightarrow> jsstring" where
  "or_default a d = (case a of None \<Rightarrow> d | Some s \<Rightarrow> if s \<noteq> [] then s else d)"

section \<open>JSON\<close>

text \<open>
  The values \<open>JSON.parse\<close> returns and \<open>JSON.stringify\<close> prints. An object is the list
  of its members in property order. \<open>JNum\<close> is a number written as an integer;
  \<open>JFrac\<close> is a number literal with a fraction or an exponent, kept as it was
  written: its numeric value is not computed here, and no field the program writes
  holds one.
\<close>

datatype json =
    JNull
  | JBool bool
  | JNum int
  | JFrac jsstring
  | JStr jsstring
  | JArr "json list"
  | JObj "(jsstring \<times> json) list"

subsection \<open>JSON.stringify\<close>

fun digit_char :: "nat \<Rightarrow> nat" where
  "digit_char d = (if d < 10 then 0x30 + d else 0x61 + (d - 10))"

fun digits10 :: "nat \<Rightarrow> jsstring" where
  "digits10 n = (if n < 10 then [digit_char n] else digits10 (n div 10) @ [digit_char (n mod 10)])"

definition number_text :: "int \<Rightarrow> jsstring" where
  "number_text n = (if n < 0 then 0x2D # digits10 (nat (- n)) else digits10 (nat n))"

definition is_lead :: "nat \<Rightarrow> bool" where
  "is_lead u \<longleftrightarrow> 0xD800 \<le> u \<and> u \<le> 0xDBFF"

definition is_trail :: "nat \<Rightarrow> bool" where
  "is_trail u \<longleftrightarrow> 0xDC00 \<le> u \<and> u \<le> 0xDFFF"

definition unicode_escape :: "nat \<Rightarrow> jsstring" where
  "unicode_escape u =
     [0x5C, 0x75, digit_char (u div 4096 mod 16), digit_char (u div 256 mod 16),
      digit_char (u div 16 mod 16), digit_char (u mod 16)]"

text \<open>
  QuoteJSONString, one code unit: the short escapes for backspace, tab, line feed, form
  feed, carriage return, the quote and the backslash; \<open>\uXXXX\<close> for the other code
  units below 0x20; every other code unit as it is.
\<close>

definition quote_unit :: "nat \<Rightarrow> jsstring" where
  "quote_unit u =
     (if u = 0x08 then [0x5C, 0x62]
      else if u = 0x09 then [0x5C, 0x74]
      else if u = 0x0A then [0x5C, 0x6E]
      else if u = 0x0C then [0x5C, 0x66]
      else if u = 0x0D then [0x5C, 0x72]
      else if u = 0x22 then [0x5C, 0x22]
      else if u = 0x5C then [0x5C, 0x5C]
      else if u < 0x20 then unicode_escape u
      else [u])"

text \<open>
  The string is read by code points: a leading surrogate followed by a trailing one is
  a pair and is printed as it is, a surrogate on its own is printed as \<open>\uXXXX\<close>.
\<close>

fun quote_units :: "jsstring \<Rightarrow> jsstring" where
  "quote_units [] = []"
| "quote_units [u] = (if is_lead u \<or> is_trail u then unicode_escape u else quote_unit u)"
| "quote_units (u # v # us) =
     (if is_lead u \<and> is_trail v then u # v # quote_units us
      else if is_lead u \<or> is_trail u then unicode_escape u @ quote_units (v # us)
      else quote_unit u @ quote_units (v # us))"

definition quote_string :: "jsstring \<Rightarrow> jsstring" where
  "quote_string s = 0x22 # quote_units s @ [0x22]"

fun commas :: "jsstring list \<Rightarrow> jsstring" where
  "commas [] = []"
| "commas [x] = x"
| "commas (x # y # ys) = x @ 0x2C # commas (y # ys)"

fun JSON_stringify :: "json \<Rightarrow> jsstring" where
  "JSON_stringify JNull = str ''null''"
| "JSON_stringify (JBool b) = (if b then str ''true'' else str ''false'')"
| "JSON_stringify (JNum n) = number_text n"
| "JSON_stringify (JFrac lit) = lit"
| "JSON_stringify (JStr s) = quote_string s"
| "JSON_stringify (JArr vs) = 0x5B # commas (map JSON_stringify vs) @ [0x5D]"
| "JSON_stringify (JObj ms) =
     0x7B # commas (map (\<lambda>(k, v). quote_string k @ 0x3A # JSON_stringify v) ms) @ [0x7D]"

subsection \<open>JSON.parse\<close>

definition is_ws :: "nat \<Rightarrow> bool" where
  "is_ws u \<longleftrightarrow> u = 0x09 \<or> u = 0x0A \<or> u = 0x0D \<or> u = 0x20"

definition skip_ws :: "jsstring \<Rightarrow> jsstring" where
  "skip_ws cs = dropWhile is_ws cs"

definition hex_value :: "nat \<Rightarrow> nat option" where
  "hex_value u =
     (if 0x30 \<le> u \<and> u \<le> 0x39 then Some (u - 0x30)
      else if 0x61 \<le> u \<and> u \<le> 0x66 then Some (u - 0x61 + 10)
      else if 0x41 \<le> u \<and> u \<le> 0x46 then Some (u - 0x41 + 10)
      else None)"

definition escape_unit :: "nat \<Rightarrow> nat option" where
  "escape_unit u =
     (if u = 0x22 then Some 0x22
      else if u = 0x5C then Some 0x5C
      else if u = 0x2F then Some 0x2F
      else if u = 0x62 then Some 0x08
      else if u = 0x66 then Some 0x0C
      else if u = 0x6E then Some 0x0A
      else if u = 0x72 then Some 0x0D
      else if u = 0x74 then Some 0x09
      else None)"

fun parse_string :: "jsstring \<Rightarrow> (jsstring \<times> jsstring) option" where
  "parse_string [] = None"
| "parse_string (u # us) =
     (if u = 0x22 then Some ([], us)
      else if u < 0x20 then None
      else if u = 0x5C then
        (case us of
           [] \<Rightarrow> None
         | e # es \<Rightarrow>
             if e = 0x75 then
               (case es of
                  a # b # c # d # rest \<Rightarrow>
                    (case (hex_value a, hex_value b, hex_value c, hex_value d) of
                       (Some x3, Some x2, Some x1, Some x0) \<Rightarrow>
                         map_option (\<lambda>(s, r). ((x3 * 4096 + x2 * 256 + x1 * 16 + x0) # s, r))
                           (parse_string rest)
                     | _ \<Rightarrow> None)
                | _ \<Rightarrow> None)
             else
               (case escape_unit e of
                  None \<Rightarrow> None
                | Some x \<Rightarrow> map_option (\<lambda>(s, r). (x # s, r)) (parse_string es)))
      else map_option (\<lambda>(s, r). (u # s, r)) (parse_string us))"

definition is_digit :: "nat \<Rightarrow> bool" where
  "is_digit u \<longleftrightarrow> 0x30 \<le> u \<and> u \<le> 0x39"

definition digits_value :: "jsstring \<Rightarrow> nat" where
  "digits_value ds = foldl (\<lambda>n d. 10 * n + (d - 0x30)) 0 ds"

definition int_part :: "jsstring \<Rightarrow> (jsstring \<times> jsstring) option" where
  "int_part cs =
     (case cs of
        [] \<Rightarrow> None
      | c # r \<Rightarrow>
          if c = 0x30 then Some ([c], r)
          else if is_digit c then Some (c # takeWhile is_digit r, dropWhile is_digit r)
          else None)"

definition frac_part :: "jsstring \<Rightarrow> (jsstring \<times> jsstring) option" where
  "frac_part cs =
     (case cs of
        c # d # r \<Rightarrow>
          if c = 0x2E then
            (if is_digit d then Some (c # d # takeWhile is_digit r, dropWhile is_digit r) else None)
          else Some ([], cs)
      | [c] \<Rightarrow> if c = 0x2E then None else Some ([], cs)
      | [] \<Rightarrow> Some ([], cs))"

definition exp_digits :: "jsstring \<Rightarrow> jsstring \<Rightarrow> (jsstring \<times> jsstring) option" where
  "exp_digits pre cs =
     (case cs of
        d # r \<Rightarrow> if is_digit d then Some (pre @ d # takeWhile is_digit r, dropWhile is_digit r) else None
      | [] \<Rightarrow> None)"

definition exp_part :: "jsstring \<Rightarrow> (jsstring \<times> jsstring) option" where
  "exp_part cs =
     (case cs of
        [] \<Rightarrow> Some ([], cs)
      | c # r \<Rightarrow>
          if c = 0x65 \<or> c = 0x45 then
            (case r of
               [] \<Rightarrow> None
             | s # r' \<Rightarrow> if s = 0x2B \<or> s = 0x2D then exp_digits [c, s] r' else exp_digits [c] r)
          else Some ([], cs))"

definition parse_number :: "jsstring \<Rightarrow> (json \<times> jsstring) option" where
  "parse_number cs =
     (let (sign, cs1) = (case cs of c # r \<Rightarrow> if c = 0x2D then ([c], r) else ([], cs) | [] \<Rightarrow> ([], cs)) in
      case int_part cs1 of
        None \<Rightarrow> None
      | Some (ip, cs2) \<Rightarrow>
          (case frac_part cs2 of
             None \<Rightarrow> None
           | Some (fp, cs3) \<Rightarrow>
               (case exp_part cs3 of
                  None \<Rightarrow> None
                | Some (ep, cs4) \<Rightarrow>
                    if fp = [] \<and> ep = [] then
                      Some (JNum (if sign = [] then int (digits_value ip) else - int (digits_value ip)), cs4)
                    else Some (JFrac (sign @ ip @ fp @ ep), cs4))))"

definition literal :: "string \<Rightarrow> json \<Rightarrow> jsstring \<Rightarrow> (json \<times> jsstring) option" where
  "literal name v cs =
     (if take (length name) cs = str name then Some (v, drop (length name) cs) else None)"

lemma length_skip_ws: "length (skip_ws cs) \<le> length cs"
  by (simp add: skip_ws_def length_dropWhile_le)

lemma skip_ws_Cons_length: "skip_ws cs = c # r \<Longrightarrow> length r < length cs"
  using length_skip_ws [of cs] by simp

function parse_value :: "jsstring \<Rightarrow> (json \<times> jsstring) option"
  and parse_elements :: "jsstring \<Rightarrow> (json list \<times> jsstring) option"
  and parse_members :: "jsstring \<Rightarrow> ((jsstring \<times> json) list \<times> jsstring) option"
where
  "parse_value cs =
     (case skip_ws cs of
        [] \<Rightarrow> None
      | c # r \<Rightarrow>
          if c = 0x5B then
            (case skip_ws r of
               [] \<Rightarrow> None
             | d # r' \<Rightarrow>
                 if d = 0x5D then Some (JArr [], r')
                 else map_option (\<lambda>(vs, r''). (JArr vs, r'')) (parse_elements r))
          else if c = 0x7B then
            (case skip_ws r of
               [] \<Rightarrow> None
             | d # r' \<Rightarrow>
                 if d = 0x7D then Some (JObj [], r')
                 else map_option (\<lambda>(ms, r''). (JObj ms, r'')) (parse_members r))
          else if c = 0x22 then map_option (\<lambda>(s, r'). (JStr s, r')) (parse_string r)
          else if c = 0x74 then literal ''true'' (JBool True) (c # r)
          else if c = 0x66 then literal ''false'' (JBool False) (c # r)
          else if c = 0x6E then literal ''null'' JNull (c # r)
          else parse_number (c # r))"
| "parse_elements cs =
     (case parse_value cs of
        None \<Rightarrow> None
      | Some (v, r) \<Rightarrow>
          if length r < length cs then
            (case skip_ws r of
               [] \<Rightarrow> None
             | c # r' \<Rightarrow>
                 if c = 0x2C then map_option (\<lambda>(vs, r''). (v # vs, r'')) (parse_elements r')
                 else if c = 0x5D then Some ([v], r')
                 else None)
          else None)"
| "parse_members cs =
     (case skip_ws cs of
        [] \<Rightarrow> None
      | q # r \<Rightarrow>
          if q = 0x22 then
            (case parse_string r of
               None \<Rightarrow> None
             | Some (k, r1) \<Rightarrow>
                 (case skip_ws r1 of
                    [] \<Rightarrow> None
                  | c # r2 \<Rightarrow>
                      if c = 0x3A \<and> length r2 < length cs then
                        (case parse_value r2 of
                           None \<Rightarrow> None
                         | Some (v, r3) \<Rightarrow>
                             if length r3 < length cs then
                               (case skip_ws r3 of
                                  [] \<Rightarrow> None
                                | e # r4 \<Rightarrow>
                                    if e = 0x2C then
                                      map_option (\<lambda>(ms, r5). ((k, v) # ms, r5)) (parse_members r4)
                                    else if e = 0x7D then Some ([(k, v)], r4)
                                    else None)
                             else None)
                      else None))
          else None)"
  by pat_completeness auto

termination
  apply (relation "measure (\<lambda>x. case x of Inl cs \<Rightarrow> 2 * length cs
                                | Inr (Inl cs) \<Rightarrow> 2 * length cs + 1
                                | Inr (Inr cs) \<Rightarrow> 2 * length cs + 1)")
  apply (auto dest!: skip_ws_Cons_length)
  done

definition JSON_parse :: "jsstring \<Rightarrow> json option" where
  "JSON_parse s =
     (case parse_value s of
        None \<Rightarrow> None
      | Some (v, r) \<Rightarrow> if skip_ws r = [] then Some v else None)"

text \<open>
  \<open>JSON.parse\<close> throws a SyntaxError where \<open>JSON_parse\<close> is \<open>None\<close>. The tests
  \<open>length r < length cs\<close> in \<open>parse_elements\<close> and \<open>parse_members\<close> are there for
  the termination proof: \<open>parse_value_consumes\<close> below shows that they always hold.
\<close>

subsection \<open>Notions for the proofs\<close>

text \<open>
  \<open>plain\<close>: no number with a fraction or an exponent anywhere in the value.
  \<open>nonnum\<close>: the text does not go on with a code unit that would extend a number.
  \<open>member_text\<close>: a member of an object as it is printed.
\<close>

fun plain :: "json \<Rightarrow> bool" where
  "plain (JFrac lit) = False"
| "plain (JArr vs) = list_all plain vs"
| "plain (JObj ms) = list_all (\<lambda>(k, v). plain v) ms"
| "plain v = True"

definition nonnum :: "jsstring \<Rightarrow> bool" where
  "nonnum r \<longleftrightarrow> (case r of [] \<Rightarrow> True | c # _ \<Rightarrow> \<not> is_digit c \<and> c \<noteq> 0x2E \<and> c \<noteq> 0x65 \<and> c \<noteq> 0x45)"

text \<open>\<open>value_start\<close>: the first code unit of a printed value.\<close>

definition value_start :: "nat \<Rightarrow> bool" where
  "value_start c \<longleftrightarrow>
     c = 0x5B \<or> c = 0x7B \<or> c = 0x22 \<or> c = 0x74 \<or> c = 0x66 \<or> c = 0x6E \<or> c = 0x2D \<or> is_digit c"

definition member_text :: "jsstring \<times> json \<Rightarrow> jsstring" where
  "member_text m = quote_string (fst m) @ 0x3A # JSON_stringify (snd m)"

section \<open>The item model\<close>

text \<open>
  The \<open>Todo\<close> typedef of line 4: \<open>id\<close>, \<open>text\<close>, \<open>completed\<close>, \<open>priority\<close>,
  \<open>createdAt\<close>. A field that an object may lack is an option (\<open>None\<close>: the property is
  absent). The priority is any string, since the ordering has a case for a string that
  is none of the three names; \<open>createdAt\<close> is an integer number of milliseconds, as
  \<open>Date.now()\<close> returns them.
\<close>

record todo =
  todo_id :: jsstring
  todo_text :: jsstring
  completed :: bool
  priority :: "jsstring option"
  createdAt :: "int option"

text \<open>The object of a todo as a JavaScript value, its properties in the order the
  program creates them (line 113), and the array of a collection.\<close>

definition todo_json :: "todo \<Rightarrow> json" where
  "todo_json t =
     JObj ([(str ''id'', JStr (todo_id t)), (str ''text'', JStr (todo_text t)),
            (str ''completed'', JBool (completed t))]
           @ (case priority t of None \<Rightarrow> [] | Some p \<Rightarrow> [(str ''priority'', JStr p)])
           @ (case createdAt t of None \<Rightarrow> [] | Some n \<Rightarrow> [(str ''createdAt'', JNum n)]))"

definition todos_json :: "todo list \<Rightarrow> json" where
  "todos_json ts = JArr (map todo_json ts)"

text \<open>
  The other direction: \<open>as_todo v\<close> is the todo whose object, as \<open>todo_json\<close> gives it,
  the value \<open>v\<close> is, member for member, if it is one.
\<close>

definition tail_fields :: "(jsstring \<times> json) list \<Rightarrow> (jsstring option \<times> int option) option" where
  "tail_fields ms =
     (case ms of
        [] \<Rightarrow> Some (None, None)
      | [(k, JStr p)] \<Rightarrow> if k = str ''priority'' then Some (Some p, None) else None
      | [(k, JNum n)] \<Rightarrow> if k = str ''createdAt'' then Some (None, Some n) else None
      | [(k, JStr p), (k', JNum n)] \<Rightarrow>
          if k = str ''priority'' \<and> k' = str ''createdAt'' then Some (Some p, Some n) else None
      | _ \<Rightarrow> None)"

definition as_todo :: "json \<Rightarrow> todo option" where
  "as_todo v =
     (case v of
        JObj ((k1, JStr i) # (k2, JStr t) # (k3, JBool c) # ms) \<Rightarrow>
          if k1 = str ''id'' \<and> k2 = str ''text'' \<and> k3 = str ''completed'' then
            (case tail_fields ms of
               None \<Rightarrow> None
             | Some (p, n) \<Rightarrow>
                 Some \<lparr>todo_id = i, todo_text = t, completed = c, priority = p, createdAt = n\<rparr>)
          else None
      | _ \<Rightarrow> None)"

fun those_todos :: "json list \<Rightarrow> todo list option" where
  "those_todos [] = Some []"
| "those_todos (v # vs) =
     (case as_todo v of
        None \<Rightarrow> None
      | Some t \<Rightarrow> (case those_todos vs of None \<Rightarrow> None | Some ts \<Rightarrow> Some (t # ts)))"

definition as_todos :: "json \<Rightarrow> todo list option" where
  "as_todos v = (case v of JArr vs \<Rightarrow> those_todos vs | _ \<Rightarrow> None)"

text \<open>
  What the script reads of a parsed value. It never checks the value that
  \<open>JSON.parse\<close> returns: it reads the members \<open>id\<close>, \<open>text\<close>, \<open>completed\<close>, \<open>priority\<close>
  and \<open>createdAt\<close> of each element where it needs them, in whatever order the text has
  them and beside whatever other members, and of a name that the text of an object has
  twice \<open>JSON.parse\<close> keeps the last value. \<open>read_todo\<close> is the todo these five members
  make, where each that is there has the type of the typedef and the first three are
  there; \<open>read_todos\<close> is the collection an array of such objects makes. The state
  below keeps these five fields of an object. For the objects that \<open>addTodo\<close> creates,
  and for those of a text that \<open>saveTodos\<close> wrote for them, \<open>todo_json\<close> is the object;
  an object that was stored with its members in another order, or with further
  members, is written back by the script in that order and with them, so that the text
  of \<open>saveTodos\<close> is then the text the script writes up to the order of the members and
  to the further ones.
\<close>

definition field :: "string \<Rightarrow> (jsstring \<times> json) list \<Rightarrow> json option" where
  "field k ms = map_of (rev ms) (str k)"

definition read_todo :: "json \<Rightarrow> todo option" where
  "read_todo v =
     (case v of
        JObj ms \<Rightarrow>
          (case (field ''id'' ms, field ''text'' ms, field ''completed'' ms) of
             (Some (JStr i), Some (JStr t), Some (JBool c)) \<Rightarrow>
               (case (field ''priority'' ms, field ''createdAt'' ms) of
                  (None, None) \<Rightarrow>
                    Some \<lparr>todo_id = i, todo_text = t, completed = c, priority = None, createdAt = None\<rparr>
                | (Some (JStr p), None) \<Rightarrow>
                    Some \<lparr>todo_id = i, todo_text = t, completed = c, priority = Some p, createdAt = None\<rparr>
                | (None, Some (JNum n)) \<Rightarrow>
                    Some \<lparr>todo_id = i, todo_text = t, completed = c, priority = None, createdAt = Some n\<rparr>
                | (Some (JStr p), Some (JNum n)) \<Rightarrow>
                    Some \<lparr>todo_id = i, todo_text = t, completed = c, priority = Some p, createdAt = Some n\<rparr>
                | _ \<Rightarrow> None)
           | _ \<Rightarrow> None)
      | _ \<Rightarrow> None)"

fun read_elements :: "json list \<Rightarrow> todo list option" where
  "read_elements [] = Some []"
| "read_elements (v # vs) =
     (case read_todo v of
        None \<Rightarrow> None
      | Some t \<Rightarrow> (case read_elements vs of None \<Rightarrow> None | Some ts \<Rightarrow> Some (t # ts)))"

definition read_todos :: "json \<Rightarrow> todo list option" where
  "read_todos v = (case v of JArr vs \<Rightarrow> read_elements vs | _ \<Rightarrow> None)"

text \<open>
  A well-formed todo: its strings are sequences of 16-bit code units, and its
  \<open>createdAt\<close>, if any, is an integer that a JavaScript number holds exactly (up to
  there \<open>number_text\<close> is what \<open>JSON.stringify\<close> prints for it).
\<close>

definition wf_string :: "jsstring \<Rightarrow> bool" where
  "wf_string s \<longleftrightarrow> list_all (\<lambda>u. u < 0x10000) s"

definition wf_todo :: "todo \<Rightarrow> bool" where
  "wf_todo t \<longleftrightarrow>
     wf_string (todo_id t) \<and> wf_string (todo_text t)
     \<and> (case priority t of None \<Rightarrow> True | Some p \<Rightarrow> wf_string p)
     \<and> (case createdAt t of None \<Rightarrow> True | Some n \<Rightarrow> - (2 ^ 53) < n \<and> n < 2 ^ 53)"

section \<open>The ordering policy\<close>

text \<open>
  The numbers of the script are IEEE doubles. The model computes with integers, which
  is exact as long as a result is an integer that a double holds; the one subtraction
  whose result may not be one is that of two \<open>createdAt\<close> values (line 47).
  \<open>to_double\<close> rounds an integer to the nearest double, a tie to the double with the
  even significand: a double holds the integers of at most 53 bits times a power of two.
  (A magnitude from \<open>2 ^ 1024\<close> on, where a double is Infinity, does not occur as the
  difference of two times in milliseconds.)
\<close>

fun bit_length :: "nat \<Rightarrow> nat" where
  "bit_length n = (if n = 0 then 0 else Suc (bit_length (n div 2)))"

definition round_magnitude :: "nat \<Rightarrow> nat" where
  "round_magnitude m =
     (let e = bit_length m - 53; q = m div 2 ^ e; r = m mod 2 ^ e in
      (if 2 ^ e < 2 * r \<or> (2 * r = 2 ^ e \<and> odd q) then q + 1 else q) * 2 ^ e)"

definition to_double :: "int \<Rightarrow> int" where
  "to_double n = (if n < 0 then - int (round_magnitude (nat (- n))) else int (round_magnitude (nat n)))"

text \<open>What the comparator returns: a number that is an integer, or NaN.\<close>

datatype number = Num int | NaN

text \<open>
  \<open>order_of\<close> is the lookup \<open>order[k]\<close> in the literal \<open>{ high: 3, medium: 2, low: 1 }\<close>
  of line 41. The lookup finds the three keys of the literal, and it finds the
  properties that the literal inherits from \<open>Object.prototype\<close>: for each of the names
  of \<open>prototype_names\<close> (those of the standard and of its annex for browsers) the value
  is a function, or the prototype object itself for \<open>__proto__\<close>, a different one for
  each name. For every other name it is undefined.
\<close>

datatype looked_up = Undefined | Number int | Inherited jsstring

definition prototype_names :: "jsstring list" where
  "prototype_names =
     map str [''constructor'', ''hasOwnProperty'', ''isPrototypeOf'', ''propertyIsEnumerable'',
              ''toLocaleString'', ''toString'', ''valueOf'', ''__proto__'',
              ''__defineGetter__'', ''__defineSetter__'', ''__lookupGetter__'',
              ''__lookupSetter__'']"

definition order_of :: "jsstring \<Rightarrow> looked_up" where
  "order_of k =
     (if k = str ''high'' then Number 3
      else if k = str ''medium'' then Number 2
      else if k = str ''low'' then Number 1
      else if k \<in> set prototype_names then Inherited k
      else Undefined)"

text \<open>
  \<open>rank a\<close> is \<open>order[a.priority || 'medium'] || 0\<close> (lines 42 and 43): undefined gives
  0; a function or an object is truthy and is kept. \<open>subtract pb pa\<close> is \<open>pb - pa\<close> of
  line 44, which is NaN unless both are numbers; two inherited values are \<open>!==\<close>
  exactly when their names differ.
\<close>

definition rank :: "todo \<Rightarrow> looked_up" where
  "rank a =
     (case order_of (or_default (priority a) (str ''medium'')) of
        Undefined \<Rightarrow> Number 0
      | Number n \<Rightarrow> Number n
      | Inherited k \<Rightarrow> Inherited k)"

definition subtract :: "looked_up \<Rightarrow> looked_up \<Rightarrow> number" where
  "subtract x y = (case (x, y) of (Number m, Number n) \<Rightarrow> Num (m - n) | _ \<Rightarrow> NaN)"

definition created :: "todo \<Rightarrow> int" where
  "created a = (case createdAt a of None \<Rightarrow> 0 | Some n \<Rightarrow> n)"

definition compareTodos :: "todo \<Rightarrow> todo \<Rightarrow> number" where
  "compareTodos a b =
     (if completed a \<noteq> completed b then Num (if completed a then 1 else - 1)
      else
        let pa = rank a; pb = rank b in
        if pa \<noteq> pb then subtract pb pa
        else
          let ca = created a; cb = created b in
          Num (to_double (cb - ca)))"

text \<open>
  \<open>Array.prototype.sort\<close> with a comparator. It reads the number the comparator
  returns through \<open>sort_compare\<close>, which takes NaN for zero: \<open>a\<close> comes before \<open>b\<close> where
  the number is negative, after it where it is positive, and the two keep their order
  where it is zero (the sort is stable). Where the comparator is a consistent
  comparator for the elements, which requires that it returns no NaN for them, this
  fixes the order, and \<open>array_sort\<close>, the stable insertion sort, is that order. Where
  it is not, ECMAScript leaves the order to the implementation: \<open>array_sort\<close> is then
  the order of one implementation. For \<open>compareTodos\<close> a collection is of the first
  case when the rank of each of its todos is a number: \<open>rank_is_number\<close>.
\<close>

definition sort_compare :: "number \<Rightarrow> int" where
  "sort_compare v = (case v of NaN \<Rightarrow> 0 | Num n \<Rightarrow> n)"

fun insert_sorted :: "('a \<Rightarrow> 'a \<Rightarrow> number) \<Rightarrow> 'a \<Rightarrow> 'a list \<Rightarrow> 'a list" where
  "insert_sorted cmp x [] = [x]"
| "insert_sorted cmp x (y # ys) =
     (if sort_compare (cmp x y) \<le> 0 then x # y # ys else y # insert_sorted cmp x ys)"

definition array_sort :: "('a \<Rightarrow> 'a \<Rightarrow> number) \<Rightarrow> 'a list \<Rightarrow> 'a list" where
  "array_sort cmp xs = foldr (insert_sorted cmp) xs []"

definition rank_is_number :: "todo \<Rightarrow> bool" where
  "rank_is_number t \<longleftrightarrow> (case rank t of Number n \<Rightarrow> True | _ \<Rightarrow> False)"

section \<open>The list store\<close>

text \<open>
  What the script reads of \<open>window\<close>: whether each of the four Firebase functions is
  there. \<open>useFirebase\<close> is line 2.
\<close>

record window =
  firebaseSubscribeTodos :: bool
  firebaseAddTodo :: bool
  firebaseDeleteTodo :: bool
  firebaseUpdateTodo :: bool

definition useFirebase :: "window \<Rightarrow> bool" where
  "useFirebase w = firebaseSubscribeTodos w"

text \<open>
  The three \<open>alert\<close> calls: of \<open>deleteTodo\<close> (line 125), of \<open>toggleCompleted\<close>
  (line 141) and of \<open>commitEdit\<close> (line 208).
\<close>

datatype alert = DeleteFailed | ToggleFailed | EditFailed

text \<open>
  The state the script keeps: the collection \<open>todos\<close>, the \<open>localStorage\<close> entry
  \<open>todos:v1\<close> (\<open>None\<close>: no entry), the todos the rows of the list element were built
  from, in their order, whether the empty-state element is shown, and the alerts raised
  so far. Every write to \<open>localStorage\<close> is taken to succeed.
\<close>

record state =
  todos :: "todo list"
  storage :: "jsstring option"
  rendered :: "todo list"
  emptyShown :: bool
  alerts :: "alert list"

text \<open>
  How an awaited call of a Firebase function settles. An operation that awaits such a
  call changes nothing before the call; it is taken on the state at the moment the call
  settles, with the one \<open>window\<close> it sees throughout.
\<close>

datatype outcome = Resolved | Rejected

text \<open>
  \<open>generateId\<close> (line 16): \<open>random\<close> is the text \<open>Math.random().toString(36)\<close>, \<open>now\<close>
  is \<open>Date.now()\<close>.
\<close>

fun toString36 :: "nat \<Rightarrow> jsstring" where
  "toString36 n =
     (if n < 36 then [digit_char n] else toString36 (n div 36) @ [digit_char (n mod 36)])"

definition generateId :: "jsstring \<Rightarrow> nat \<Rightarrow> jsstring" where
  "generateId random now = take 8 (drop 2 random) @ toString36 now"

definition saveTodos :: "window \<Rightarrow> state \<Rightarrow> state" where
  "saveTodos w st =
     (if useFirebase w then st
      else st\<lparr>storage := Some (JSON_stringify (todos_json (todos st)))\<rparr>)"

definition updateEmptyState :: "state \<Rightarrow> state" where
  "updateEmptyState st = st\<lparr>emptyShown := (todos st = [])\<rparr>"

definition renderTodos :: "state \<Rightarrow> state" where
  "renderTodos st = updateEmptyState (st\<lparr>rendered := array_sort compareTodos (todos st)\<rparr>)"

text \<open>
  \<open>addTodo\<close> (line 100). \<open>priorityEl\<close> is the value of the priority selector
  (\<open>None\<close>: there is no such element); \<open>oc\<close> is how \<open>firebaseAddTodo\<close> settles, when
  it is called. \<open>new_todo\<close> is the object literal of line 113.
\<close>

definition new_todo :: "jsstring \<Rightarrow> jsstring \<Rightarrow> jsstring \<Rightarrow> todo" where
  "new_todo i trimmed prio =
     \<lparr>todo_id = i, todo_text = trimmed, completed = False, priority = Some prio, createdAt = None\<rparr>"

definition addTodo ::
  "window \<Rightarrow> jsstring option \<Rightarrow> jsstring \<Rightarrow> nat \<Rightarrow> outcome \<Rightarrow> jsstring \<Rightarrow> state \<Rightarrow> state" where
  "addTodo w priorityEl random now oc entered st =
     (let trimmed = trim entered in
      if trimmed = [] then st
      else
        let prio = or_default priorityEl (str ''medium'') in
        if useFirebase w \<and> firebaseAddTodo w \<and> oc = Resolved then st
        else
          renderTodos (saveTodos w
            (st\<lparr>todos := new_todo (generateId random now) trimmed prio # todos st\<rparr>)))"

text \<open>\<open>deleteTodo\<close> (line 119).\<close>

definition deleteTodo :: "window \<Rightarrow> outcome \<Rightarrow> jsstring \<Rightarrow> state \<Rightarrow> state" where
  "deleteTodo w oc i st =
     (if useFirebase w \<and> firebaseDeleteTodo w then
        (case oc of
           Resolved \<Rightarrow> st
         | Rejected \<Rightarrow> st\<lparr>alerts := alerts st @ [DeleteFailed]\<rparr>)
      else
        renderTodos (saveTodos w (st\<lparr>todos := filter (\<lambda>t. todo_id t \<noteq> i) (todos st)\<rparr>)))"

text \<open>
  \<open>todos.find(...)\<close> returns the first object with the id, and the assignment to one
  of its properties changes that object in the array: \<open>mutate_first\<close>.
\<close>

fun mutate_first :: "('a \<Rightarrow> bool) \<Rightarrow> ('a \<Rightarrow> 'a) \<Rightarrow> 'a list \<Rightarrow> 'a list" where
  "mutate_first P f [] = []"
| "mutate_first P f (x # xs) = (if P x then f x # xs else x # mutate_first P f xs)"

text \<open>\<open>toggleCompleted\<close> (line 135).\<close>

definition toggleCompleted :: "window \<Rightarrow> outcome \<Rightarrow> jsstring \<Rightarrow> bool \<Rightarrow> state \<Rightarrow> state" where
  "toggleCompleted w oc i c st =
     (if useFirebase w \<and> firebaseUpdateTodo w then
        (case oc of
           Resolved \<Rightarrow> st
         | Rejected \<Rightarrow> st\<lparr>alerts := alerts st @ [ToggleFailed]\<rparr>)
      else
        (case find (\<lambda>x. todo_id x = i) (todos st) of
           None \<Rightarrow> st
         | Some t \<Rightarrow>
             renderTodos (saveTodos w
               (st\<lparr>todos := mutate_first (\<lambda>x. todo_id x = i) (\<lambda>x. x\<lparr>completed := c\<rparr>) (todos st)\<rparr>))))"

text \<open>\<open>commitEdit\<close> (line 196).\<close>

definition commitEdit ::
  "window \<Rightarrow> outcome \<Rightarrow> jsstring \<Rightarrow> jsstring \<Rightarrow> jsstring option \<Rightarrow> state \<Rightarrow> state" where
  "commitEdit w oc i newText newPriority st =
     (let trimmed = trim newText in
      if trimmed = [] then deleteTodo w oc i st
      else if useFirebase w \<and> firebaseUpdateTodo w then
        (case oc of
           Resolved \<Rightarrow> st
         | Rejected \<Rightarrow> st\<lparr>alerts := alerts st @ [EditFailed]\<rparr>)
      else
        (case find (\<lambda>x. todo_id x = i) (todos st) of
           None \<Rightarrow> st
         | Some t \<Rightarrow>
             renderTodos (saveTodos w
               (st\<lparr>todos :=
                  mutate_first (\<lambda>x. todo_id x = i)
                    (\<lambda>x. x\<lparr>todo_text := trimmed,
                           priority :=
                             Some (or_default (or_else newPriority (priority x)) (str ''medium''))\<rparr>)
                    (todos st)\<rparr>))))"

text \<open>
  \<open>loadTodos\<close> (line 20). \<open>loaded_value raw\<close> is the value lines 22 to 27 assign to
  \<open>todos\<close> when \<open>getItem\<close> returns \<open>raw\<close> (\<open>None\<close>: null). The script assigns what
  \<open>JSON.parse\<close> returns, whatever it is; \<open>loadTodos\<close> is \<open>None\<close> where that value is
  not an array of objects with the fields of a todo, for which the state has no
  collection.
\<close>

definition loaded_value :: "jsstring option \<Rightarrow> json" where
  "loaded_value raw =
     (case raw of
        None \<Rightarrow> JArr []
      | Some r \<Rightarrow>
          if r = [] then JArr []
          else (case JSON_parse r of None \<Rightarrow> JArr [] | Some v \<Rightarrow> v))"

definition loadTodos :: "window \<Rightarrow> state \<Rightarrow> state option" where
  "loadTodos w st =
     (if useFirebase w then Some st
      else map_option (\<lambda>ts. st\<lparr>todos := ts\<rparr>) (read_todos (loaded_value (storage st))))"

text \<open>
  The first step of \<open>renderTodos\<close> on the value of \<open>todos\<close> (line 95): the spread
  \<open>[...todos]\<close> takes the elements of an array and the code points of a string, and
  throws a TypeError on a value that is not iterable: null, a boolean, a number, an
  object.
\<close>

datatype error = TypeError

fun code_points :: "jsstring \<Rightarrow> jsstring list" where
  "code_points [] = []"
| "code_points [u] = [[u]]"
| "code_points (u # v # r) =
     (if is_lead u \<and> is_trail v then [u, v] # code_points r else [u] # code_points (v # r))"

definition spread :: "json \<Rightarrow> error + json list" where
  "spread v =
     (case v of
        JArr vs \<Rightarrow> Inr vs
      | JStr s \<Rightarrow> Inr (map JStr (code_points s))
      | _ \<Rightarrow> Inl TypeError)"

text \<open>
  \<open>startFirebaseMode\<close> (line 229) up to the subscription, and the callback it
  subscribes, called with the items of a snapshot.
\<close>

definition startFirebaseMode :: "state \<Rightarrow> state" where
  "startFirebaseMode st = renderTodos (st\<lparr>storage := None, todos := []\<rparr>)"

definition onSnapshot :: "todo list \<Rightarrow> state \<Rightarrow> state" where
  "onSnapshot items st =
     renderTodos
       (st\<lparr>todos :=
          array_sort compareTodos
            (map (\<lambda>t. t\<lparr>priority := Some (or_default (priority t) (str ''medium''))\<rparr>) items)\<rparr>)"

subsection \<open>Runs\<close>

text \<open>
  The operations as events, each with the inputs it reads from its environment, and a
  run of the script as a list of events, each with the \<open>window\<close> at that moment.
\<close>

datatype event =
    Add "jsstring option" jsstring nat outcome jsstring
  | Delete outcome jsstring
  | Toggle outcome jsstring bool
  | Commit outcome jsstring jsstring "jsstring option"
  | Load
  | StartFirebase
  | Snapshot "todo list"

fun step :: "window \<Rightarrow> event \<Rightarrow> state \<Rightarrow> state option" where
  "step w (Add priorityEl random now oc entered) st = Some (addTodo w priorityEl random now oc entered st)"
| "step w (Delete oc i) st = Some (deleteTodo w oc i st)"
| "step w (Toggle oc i c) st = Some (toggleCompleted w oc i c st)"
| "step w (Commit oc i newText newPriority) st = Some (commitEdit w oc i newText newPriority st)"
| "step w Load st = loadTodos w st"
| "step w StartFirebase st = Some (startFirebaseMode st)"
| "step w (Snapshot items) st = Some (onSnapshot items st)"

fun run :: "(window \<times> event) list \<Rightarrow> state \<Rightarrow> state option" where
  "run [] st = Some st"
| "run ((w, e) # es) st = (case step w e st of None \<Rightarrow> None | Some st' \<Rightarrow> run es st')"

definition ids :: "state \<Rightarrow> jsstring list" where
  "ids st = map todo_id (todos st)"

text \<open>
  What a run takes from outside: the id that an add generates, when it reaches line 113,
  is not in the collection, and a stored or a remote collection has no id twice.
\<close>

definition reaches_local_add :: "window \<Rightarrow> outcome \<Rightarrow> jsstring \<Rightarrow> bool" where
  "reaches_local_add w oc entered \<longleftrightarrow>
     trim entered \<noteq> [] \<and> \<not> (useFirebase w \<and> firebaseAddTodo w \<and> oc = Resolved)"

fun event_ok :: "window \<Rightarrow> event \<Rightarrow> state \<Rightarrow> bool" where
  "event_ok w (Add priorityEl random now oc entered) st =
     (reaches_local_add w oc entered \<longrightarrow> generateId random now \<notin> set (ids st))"
| "event_ok w Load st = (case loadTodos w st of None \<Rightarrow> True | Some st' \<Rightarrow> distinct (ids st'))"
| "event_ok w (Snapshot items) st = distinct (map todo_id items)"
| "event_ok w e st = True"

fun run_ok :: "(window \<times> event) list \<Rightarrow> state \<Rightarrow> bool" where
  "run_ok [] st = True"
| "run_ok ((w, e) # es) st =
     (event_ok w e st \<and> (case step w e st of None \<Rightarrow> True | Some st' \<Rightarrow> run_ok es st'))"

definition init :: "jsstring option \<Rightarrow> state" where
  "init stored = \<lparr>todos = [], storage = stored, rendered = [], emptyShown = False, alerts = []\<rparr>"

section \<open>Example values\<close>

definition local_window :: window where
  "local_window =
     \<lparr>firebaseSubscribeTodos = False, firebaseAddTodo = False,
      firebaseDeleteTodo = False, firebaseUpdateTodo = False\<rparr>"

definition remote_window :: window where
  "remote_window =
     \<lparr>firebaseSubscribeTodos = True, firebaseAddTodo = True,
      firebaseDeleteTodo = True, firebaseUpdateTodo = True\<rparr>"

definition ex_todo :: "string \<Rightarrow> bool \<Rightarrow> string \<Rightarrow> todo" where
  "ex_todo i c p =
     \<lparr>todo_id = str i, todo_text = str ''x'', completed = c, priority = Some (str p),
      createdAt = None\<rparr>"

definition ex_state :: "todo list \<Rightarrow> state" where
  "ex_state ts = \<lparr>todos = ts, storage = None, rendered = [], emptyShown = False, alerts = []\<rparr>"

text \<open>
  A stored collection of one todo, with the members of its object in another order
  than \<open>addTodo\<close> gives them and with a member of another name.
\<close>

definition ex_stored :: json where
  "ex_stored =
     JArr [JObj [(str ''text'', JStr (str ''x'')), (str ''note'', JNull),
                 (str ''id'', JStr (str ''s'')), (str ''completed'', JBool False)]]"

definition ex_run :: "(window \<times> event) list" where
  "ex_run =
     [(local_window, Load),
      (local_window, Add (Some (str ''high'')) (str ''0.4fzyo82mvyr'') 5 Resolved (str ''a'')),
      (local_window, Add None (str ''0.4fzyo82mvyr'') 6 Resolved (str ''b'')),
      (local_window, Toggle Resolved (str ''4fzyo82m5'') True),
      (local_window, Delete Resolved (str ''4fzyo82m6''))]"

section \<open>The comparator and the sort\<close>

subsection \<open>Rounding to a double\<close>

declare bit_length.simps [simp del]

lemma bit_length_0 [simp]: "bit_length 0 = 0"
  by (simp add: bit_length.simps)

lemma bit_length_lower: "0 < m \<Longrightarrow> 2 ^ (bit_length m - 1) \<le> m"
proof (induction m rule: bit_length.induct)
  case (1 n)
  show ?case
  proof (cases "n div 2 = 0")
    case True
    with 1 show ?thesis by (simp add: bit_length.simps [of n])
  next
    case False
    then have "2 ^ (bit_length (n div 2) - 1) \<le> n div 2" using 1 by simp
    moreover have "bit_length (n div 2) \<noteq> 0"
      using False by (simp add: bit_length.simps [of "n div 2"])
    ultimately have "2 ^ bit_length (n div 2) \<le> 2 * (n div 2)"
      by (cases "bit_length (n div 2)") auto
    then show ?thesis using 1 by (simp add: bit_length.simps [of n])
  qed
qed

lemma bit_length_upper: "m < 2 ^ k \<Longrightarrow> bit_length m \<le> k"
proof (induction m arbitrary: k rule: bit_length.induct)
  case (1 n)
  show ?case
  proof (cases "n = 0")
    case True
    then show ?thesis by simp
  next
    case False
    then obtain j where k: "k = Suc j" using 1(2) by (cases k) auto
    then have "n div 2 < 2 ^ j" using 1(2) by auto
    then have "bit_length (n div 2) \<le> j" using 1(1) False by simp
    then show ?thesis using False k by (simp add: bit_length.simps [of n])
  qed
qed

lemma round_magnitude_0 [simp]: "round_magnitude 0 = 0"
  by (simp add: round_magnitude_def)

lemma round_magnitude_pos: "0 < m \<Longrightarrow> 0 < round_magnitude m"
proof -
  assume m: "0 < m"
  let ?e = "bit_length m - 53"
  have "(2::nat) ^ ?e \<le> 2 ^ (bit_length m - 1)" by (rule power_increasing) auto
  also have "\<dots> \<le> m" using m by (rule bit_length_lower)
  finally have "0 < m div 2 ^ ?e" by (simp add: div_greater_zero_iff)
  then show ?thesis by (simp add: round_magnitude_def Let_def)
qed

lemma round_magnitude_exact: "m < 2 ^ 53 \<Longrightarrow> round_magnitude m = m"
proof -
  assume "m < 2 ^ 53"
  then have "bit_length m - 53 = 0" using bit_length_upper [of m 53] by simp
  then show ?thesis by (simp add: round_magnitude_def Let_def)
qed

lemma to_double_neg [simp]: "to_double (- n) = - to_double n"
  by (cases "n = 0") (auto simp: to_double_def)

lemma to_double_less_0 [simp]: "to_double n < 0 \<longleftrightarrow> n < 0"
  using round_magnitude_pos [of "nat (- n)"] by (auto simp: to_double_def)

lemma to_double_greater_0 [simp]: "0 < to_double n \<longleftrightarrow> 0 < n"
  using round_magnitude_pos [of "nat n"] by (cases "n = 0") (auto simp: to_double_def)

lemma to_double_eq_0 [simp]: "to_double n = 0 \<longleftrightarrow> n = 0"
  using to_double_less_0 [of n] to_double_greater_0 [of n] by linarith

lemma to_double_le_0 [simp]: "to_double n \<le> 0 \<longleftrightarrow> n \<le> 0"
  using to_double_greater_0 [of n] by linarith

lemma to_double_diff: "to_double (x - y) = - to_double (y - x)"
  using to_double_neg [of "y - x"] by simp

text \<open>
  An integer below \<open>2 ^ 53\<close> in magnitude is a double: the differences of times in
  milliseconds are exact.
\<close>

lemma to_double_exact: "\<bar>n\<bar> < 2 ^ 53 \<Longrightarrow> to_double n = n"
proof (cases "n < 0")
  case True
  assume "\<bar>n\<bar> < 2 ^ 53"
  with True have "nat (- n) < 2 ^ 53" by (simp add: nat_less_iff)
  then have "round_magnitude (nat (- n)) = nat (- n)" by (rule round_magnitude_exact)
  with True show ?thesis by (simp add: to_double_def)
next
  case False
  assume "\<bar>n\<bar> < 2 ^ 53"
  with False have "nat n < 2 ^ 53" by (simp add: nat_less_iff)
  then have "round_magnitude (nat n) = nat n" by (rule round_magnitude_exact)
  with False show ?thesis by (simp add: to_double_def)
qed

subsection \<open>The comparator\<close>

lemma rank_is_number_iff: "rank_is_number t \<longleftrightarrow> (\<exists>n. rank t = Number n)"
  by (simp add: rank_is_number_def split: looked_up.splits)



lemma rank_of_priority:
  "priority b = Some (str ''low'') \<Longrightarrow> rank b = Number 1"
  "priority b = Some (str ''medium'') \<Longrightarrow> rank b = Number 2"
  "priority b = Some (str ''high'') \<Longrightarrow> rank b = Number 3"
  "priority b = None \<or> priority b = Some [] \<Longrightarrow> rank b = Number 2"
  by (auto simp: rank_def order_of_def or_default_def str_def)



lemma ex_ranks:
  "rank (ex_todo i c ''high'') = Number 3"
  "rank (ex_todo i c ''medium'') = Number 2"
  "rank (ex_todo i c ''low'') = Number 1"
  "rank (ex_todo i c ''urgent'') = Number 0"
  "rank (ex_todo i c ''constructor'') = Inherited (str ''constructor'')"
  "rank ((ex_todo i c p)\<lparr>priority := None\<rparr>) = Number 2"
  by (simp_all add: ex_todo_def rank_def order_of_def or_default_def prototype_names_def str_def)

text \<open>
  Where the difference of two \<open>createdAt\<close> values is no double, the subtraction of
  line 47 rounds it: for a todo created at \<open>2 ^ 53\<close> and one created at \<open>- 1\<close>, of one
  completion state and one priority, the comparator returns \<open>- 9007199254740992\<close>, not
  \<open>- 9007199254740993\<close>.
\<close>

lemma bit_length_example: "bit_length 9007199254740993 = 54"
  by (simp add: bit_length.simps)

lemma compareTodos_rounds:
  "compareTodos ((ex_todo ''a'' False ''low'')\<lparr>createdAt := Some 9007199254740992\<rparr>)
     ((ex_todo ''b'' False ''low'')\<lparr>createdAt := Some (- 1)\<rparr>)
   = Num (- 9007199254740992)"
proof -
  have r: "rank ((ex_todo ''a'' False ''low'')\<lparr>createdAt := Some 9007199254740992\<rparr>) = Number 1"
      "rank ((ex_todo ''b'' False ''low'')\<lparr>createdAt := Some (- 1)\<rparr>) = Number 1"
    by (rule rank_of_priority, simp add: ex_todo_def)+
  have d: "to_double 9007199254740993 = 9007199254740992"
    by (simp add: to_double_def round_magnitude_def bit_length_example)
  show ?thesis
    by (simp add: compareTodos_def r d) (simp add: ex_todo_def created_def d)
qed

lemma sort_compare_subtract: "sort_compare (subtract x y) = - sort_compare (subtract y x)"
  by (simp add: subtract_def sort_compare_def split: looked_up.splits)

lemma compareTodos_flip: "sort_compare (compareTodos b a) = - sort_compare (compareTodos a b)"
proof (cases "completed a \<noteq> completed b")
  case True
  then show ?thesis by (auto simp: compareTodos_def sort_compare_def)
next
  case same: False
  show ?thesis
  proof (cases "rank a = rank b")
    case True
    with same show ?thesis
      using to_double_diff [of "created a" "created b"]
      by (simp add: compareTodos_def Let_def sort_compare_def)
  next
    case False
    then have "rank b \<noteq> rank a" by simp
    with same False show ?thesis
      using sort_compare_subtract [of "rank a" "rank b"]
      by (simp add: compareTodos_def Let_def)
  qed
qed

lemma compareTodos_trans_less:
  "sort_compare (compareTodos a b) < 0 \<Longrightarrow> sort_compare (compareTodos b c) < 0 \<Longrightarrow>
     sort_compare (compareTodos a c) < 0"
  by (auto simp: compareTodos_def Let_def sort_compare_def subtract_def
      split: if_splits looked_up.splits)

lemma compareTodos_trans_le:
  "rank_is_number a \<Longrightarrow> rank_is_number b \<Longrightarrow> rank_is_number c \<Longrightarrow>
   sort_compare (compareTodos a b) \<le> 0 \<Longrightarrow> sort_compare (compareTodos b c) \<le> 0 \<Longrightarrow>
     sort_compare (compareTodos a c) \<le> 0"
  by (auto simp: compareTodos_def Let_def sort_compare_def subtract_def rank_is_number_iff
      split: if_splits)

lemma compareTodos_tie:
  "rank_is_number a \<Longrightarrow> rank_is_number x \<Longrightarrow> rank_is_number y \<Longrightarrow>
   sort_compare (compareTodos a x) = 0 \<Longrightarrow> \<not> sort_compare (compareTodos x y) \<le> 0 \<Longrightarrow>
     sort_compare (compareTodos a y) \<noteq> 0"
  by (auto simp: compareTodos_def Let_def sort_compare_def subtract_def rank_is_number_iff
      split: if_splits)

subsection \<open>The sort\<close>

lemma set_insert_sorted: "set (insert_sorted cmp x ys) = insert x (set ys)"
  by (induction ys) auto

lemma set_array_sort: "set (array_sort cmp xs) = set xs"
  unfolding array_sort_def by (induction xs) (auto simp: set_insert_sorted)

lemma sorted_insert_sorted:
  assumes tr: "\<And>a b c. P a \<Longrightarrow> P b \<Longrightarrow> P c \<Longrightarrow> sort_compare (cmp a b) \<le> 0 \<Longrightarrow>
      sort_compare (cmp b c) \<le> 0 \<Longrightarrow> sort_compare (cmp a c) \<le> 0"
    and tot: "\<And>a b. P a \<Longrightarrow> P b \<Longrightarrow> \<not> sort_compare (cmp a b) \<le> 0 \<Longrightarrow> sort_compare (cmp b a) \<le> 0"
  shows "P x \<Longrightarrow> \<forall>y\<in>set ys. P y \<Longrightarrow> sorted_wrt (\<lambda>a b. sort_compare (cmp a b) \<le> 0) ys \<Longrightarrow>
    sorted_wrt (\<lambda>a b. sort_compare (cmp a b) \<le> 0) (insert_sorted cmp x ys)"
proof (induction ys)
  case Nil
  then show ?case by simp
next
  case (Cons y ys)
  show ?case
  proof (cases "sort_compare (cmp x y) \<le> 0")
    case True
    have "sort_compare (cmp x z) \<le> 0" if "z \<in> set ys" for z
      using tr [of x y z] True Cons.prems that by auto
    with True Cons.prems show ?thesis by auto
  next
    case False
    then have "sort_compare (cmp y x) \<le> 0" using tot [of x y] Cons.prems by auto
    with False Cons show ?thesis by (auto simp: set_insert_sorted)
  qed
qed

lemma sorted_array_sort:
  assumes tr: "\<And>a b c. P a \<Longrightarrow> P b \<Longrightarrow> P c \<Longrightarrow> sort_compare (cmp a b) \<le> 0 \<Longrightarrow>
      sort_compare (cmp b c) \<le> 0 \<Longrightarrow> sort_compare (cmp a c) \<le> 0"
    and tot: "\<And>a b. P a \<Longrightarrow> P b \<Longrightarrow> \<not> sort_compare (cmp a b) \<le> 0 \<Longrightarrow> sort_compare (cmp b a) \<le> 0"
  shows "\<forall>y\<in>set xs. P y \<Longrightarrow> sorted_wrt (\<lambda>a b. sort_compare (cmp a b) \<le> 0) (array_sort cmp xs)"
proof (induction xs)
  case Nil
  then show ?case by (simp add: array_sort_def)
next
  case (Cons x xs)
  have "sorted_wrt (\<lambda>a b. sort_compare (cmp a b) \<le> 0) (insert_sorted cmp x (array_sort cmp xs))"
  proof (rule sorted_insert_sorted [where P = P])
    show "P x" using Cons.prems by simp
    show "\<forall>y\<in>set (array_sort cmp xs). P y" using Cons.prems by (simp add: set_array_sort)
    show "sorted_wrt (\<lambda>a b. sort_compare (cmp a b) \<le> 0) (array_sort cmp xs)"
      using Cons by simp
  qed (fact tr tot)+
  then show ?case by (simp add: array_sort_def)
qed

lemma array_sort_sorted:
  "sorted_wrt (\<lambda>a b. sort_compare (cmp a b) \<le> 0) xs \<Longrightarrow> array_sort cmp xs = xs"
  unfolding array_sort_def
proof (induction xs)
  case Nil
  then show ?case by simp
next
  case (Cons x xs)
  then show ?case by (cases xs) auto
qed

lemma sorted_render:
  assumes "\<forall>t\<in>set xs. rank_is_number t"
  shows "sorted_wrt (\<lambda>a b. sort_compare (compareTodos a b) \<le> 0) (array_sort compareTodos xs)"
proof (rule sorted_array_sort [of rank_is_number])
  show "\<And>a b c. rank_is_number a \<Longrightarrow> rank_is_number b \<Longrightarrow> rank_is_number c \<Longrightarrow>
      sort_compare (compareTodos a b) \<le> 0 \<Longrightarrow> sort_compare (compareTodos b c) \<le> 0 \<Longrightarrow>
      sort_compare (compareTodos a c) \<le> 0"
    by (rule compareTodos_trans_le)
  show "\<And>a b. rank_is_number a \<Longrightarrow> rank_is_number b \<Longrightarrow>
      \<not> sort_compare (compareTodos a b) \<le> 0 \<Longrightarrow> sort_compare (compareTodos b a) \<le> 0"
    using compareTodos_flip by (metis neg_0_le_iff_le linear)
  show "\<forall>y\<in>set xs. rank_is_number y" by (rule assms)
qed

lemma insert_sorted_split:
  "insert_sorted cmp x ys =
     takeWhile (\<lambda>y. \<not> sort_compare (cmp x y) \<le> 0) ys
       @ x # dropWhile (\<lambda>y. \<not> sort_compare (cmp x y) \<le> 0) ys"
  by (induction ys) auto

lemma insert_sorted_before:
  assumes "y \<in> set ys" "sort_compare (cmp x y) \<le> 0"
  shows "\<exists>pre post. insert_sorted cmp x ys = pre @ x # post \<and> y \<notin> set pre \<and> y \<in> set post"
proof -
  let ?P = "\<lambda>y. \<not> sort_compare (cmp x y) \<le> 0"
  have "y \<notin> set (takeWhile ?P ys)"
    using assms(2) by (auto dest: set_takeWhileD)
  moreover have "y \<in> set (dropWhile ?P ys)"
    using assms calculation by (metis Un_iff set_append takeWhile_dropWhile_id)
  ultimately show ?thesis
    using insert_sorted_split [of cmp x ys] by blast
qed

lemma distinct_insert_sorted:
  "distinct (map f (insert_sorted cmp x ys)) \<longleftrightarrow> f x \<notin> f ` set ys \<and> distinct (map f ys)"
  by (induction ys) (auto simp: set_insert_sorted)

lemma distinct_array_sort: "distinct (map f (array_sort cmp xs)) \<longleftrightarrow> distinct (map f xs)"
  unfolding array_sort_def
  by (induction xs) (auto simp: distinct_insert_sorted set_array_sort [unfolded array_sort_def])

lemma mset_insert_sorted: "mset (insert_sorted cmp x ys) = add_mset x (mset ys)"
  by (induction ys) auto

lemma mset_array_sort: "mset (array_sort cmp xs) = mset xs"
  unfolding array_sort_def by (induction xs) (auto simp: mset_insert_sorted)

lemma filter_insert_sorted:
  assumes "\<And>y. y \<in> set ys \<Longrightarrow> sort_compare (cmp a x) = 0 \<Longrightarrow> \<not> sort_compare (cmp x y) \<le> 0 \<Longrightarrow>
      sort_compare (cmp a y) \<noteq> 0"
  shows "filter (\<lambda>y. sort_compare (cmp a y) = 0) (insert_sorted cmp x ys)
    = (if sort_compare (cmp a x) = 0 then x # filter (\<lambda>y. sort_compare (cmp a y) = 0) ys
       else filter (\<lambda>y. sort_compare (cmp a y) = 0) ys)"
  using assms by (induction ys) auto

lemma filter_array_sort:
  assumes "rank_is_number a"
  shows "\<forall>t\<in>set xs. rank_is_number t \<Longrightarrow>
    filter (\<lambda>y. sort_compare (compareTodos a y) = 0) (array_sort compareTodos xs)
     = filter (\<lambda>y. sort_compare (compareTodos a y) = 0) xs"
proof (induction xs)
  case Nil
  then show ?case by (simp add: array_sort_def)
next
  case (Cons x xs)
  have "filter (\<lambda>y. sort_compare (compareTodos a y) = 0)
      (insert_sorted compareTodos x (array_sort compareTodos xs))
    = (if sort_compare (compareTodos a x) = 0
       then x # filter (\<lambda>y. sort_compare (compareTodos a y) = 0) (array_sort compareTodos xs)
       else filter (\<lambda>y. sort_compare (compareTodos a y) = 0) (array_sort compareTodos xs))"
    using Cons.prems assms
    by (intro filter_insert_sorted compareTodos_tie) (auto simp: set_array_sort)
  with Cons show ?case by (simp add: array_sort_def)
qed


subsection \<open>Ranks, idempotence and transitivity\<close>




text \<open>
  C4. For a collection in which the rank of every todo is a number, as it is for every
  priority but the names that an object inherits, sorting the sorted collection again
  changes nothing. The comparator is transitive for all todos: if \<open>a\<close> sorts before
  \<open>b\<close> and \<open>b\<close> before \<open>c\<close>, then \<open>a\<close> sorts before \<open>c\<close>.
\<close>

theorem sort_idempotent_comparator_transitive:
  "(list_all rank_is_number xs \<longrightarrow>
      array_sort compareTodos (array_sort compareTodos xs) = array_sort compareTodos xs)
   \<and> (sort_compare (compareTodos a b) < 0 \<longrightarrow> sort_compare (compareTodos b c) < 0 \<longrightarrow>
        sort_compare (compareTodos a c) < 0)"
  using array_sort_sorted [OF sorted_render, of xs] compareTodos_trans_less [of a b c]
  by (simp add: list_all_iff)

theorem sort_idempotent_comparator_transitive_witness:
  "list_all rank_is_number [ex_todo ''a'' True ''high'', ex_todo ''b'' False ''low'']
   \<and> array_sort compareTodos
     (array_sort compareTodos [ex_todo ''a'' True ''high'', ex_todo ''b'' False ''low''])
     = array_sort compareTodos [ex_todo ''a'' True ''high'', ex_todo ''b'' False ''low'']
   \<and> sort_compare (compareTodos (ex_todo ''a'' False ''high'') (ex_todo ''b'' False ''medium'')) < 0
   \<and> sort_compare (compareTodos (ex_todo ''b'' False ''medium'') (ex_todo ''c'' False ''low'')) < 0
   \<and> sort_compare (compareTodos (ex_todo ''a'' False ''high'') (ex_todo ''c'' False ''low'')) < 0"
proof -
  have n: "list_all rank_is_number [ex_todo ''a'' True ''high'', ex_todo ''b'' False ''low'']"
    by (simp add: rank_is_number_def ex_ranks)
  have c: "completed (ex_todo i False p) = False" for i p
    by (simp add: ex_todo_def)
  have ab: "sort_compare (compareTodos (ex_todo ''a'' False ''high'') (ex_todo ''b'' False ''medium'')) < 0"
    by (simp add: compareTodos_def ex_ranks subtract_def sort_compare_def c)
  have bc: "sort_compare (compareTodos (ex_todo ''b'' False ''medium'') (ex_todo ''c'' False ''low'')) < 0"
    by (simp add: compareTodos_def ex_ranks subtract_def sort_compare_def c)
  show ?thesis
    using n ab bc
      sort_idempotent_comparator_transitive
        [of "[ex_todo ''a'' True ''high'', ex_todo ''b'' False ''low'']"
          "ex_todo ''a'' False ''high''" "ex_todo ''b'' False ''medium''"
          "ex_todo ''c'' False ''low''"]
    by blast
qed

section \<open>Saving and loading\<close>

declare digits10.simps [simp del]

subsection \<open>Strings\<close>

lemma hex_value_digit_char: "d < 16 \<Longrightarrow> hex_value (digit_char d) = Some d"
  by (auto simp: hex_value_def)

lemma hex_digits_sum:
  assumes "u < 65536"
  shows "(u div 4096 mod 16) * 4096 + (u div 256 mod 16) * 256 + (u div 16 mod 16) * 16 + u mod 16
    = (u::nat)"
proof -
  define a where "a = u div 16"
  define b where "b = a div 16"
  define c where "c = b div 16"
  have u: "u = 16 * a + u mod 16" by (simp add: a_def)
  have a: "a = 16 * b + a mod 16" by (simp add: b_def)
  have b: "b = 16 * c + b mod 16" by (simp add: c_def)
  have b256: "u div 256 = b" by (simp add: a_def b_def div_mult2_eq)
  have c4096: "u div 4096 = c" by (simp add: a_def b_def c_def div_mult2_eq)
  have "c < 16" using assms by (simp add: c4096 [symmetric])
  then have cm: "c mod 16 = c" by simp
  show ?thesis
    unfolding b256 c4096 cm a_def [symmetric]
    using u a b by linarith
qed

lemma parse_string_unicode_escape:
  assumes "u < 65536"
  shows "parse_string (unicode_escape u @ rest)
    = map_option (\<lambda>(s, r). (u # s, r)) (parse_string rest)"
proof -
  have "u div 4096 mod 16 < 16" "u div 256 mod 16 < 16" "u div 16 mod 16 < 16" "u mod 16 < 16"
    by simp_all
  then have h: "hex_value (digit_char (u div 4096 mod 16)) = Some (u div 4096 mod 16)"
    "hex_value (digit_char (u div 256 mod 16)) = Some (u div 256 mod 16)"
    "hex_value (digit_char (u div 16 mod 16)) = Some (u div 16 mod 16)"
    "hex_value (digit_char (u mod 16)) = Some (u mod 16)"
    by (simp_all only: hex_value_digit_char)
  show ?thesis
    unfolding unicode_escape_def
    by (simp add: h hex_digits_sum [OF assms] del: digit_char.simps)
qed

lemma parse_string_quote_unit:
  "parse_string (quote_unit u @ rest) = map_option (\<lambda>(s, r). (u # s, r)) (parse_string rest)"
proof -
  consider "u = 0x08" | "u = 0x09" | "u = 0x0A" | "u = 0x0C" | "u = 0x0D" | "u = 0x22" | "u = 0x5C"
    | "u < 0x20" "u \<notin> {0x08, 0x09, 0x0A, 0x0C, 0x0D}"
    | "u \<ge> 0x20" "u \<noteq> 0x22" "u \<noteq> 0x5C"
    by fastforce
  then show ?thesis
  proof cases
    case 8
    then have "quote_unit u = unicode_escape u"
      by (simp add: quote_unit_def)
    with 8 show ?thesis
      by (simp add: parse_string_unicode_escape del: parse_string.simps)
  next
    case 9
    then have "quote_unit u = [u]"
      by (simp add: quote_unit_def)
    with 9 show ?thesis by simp
  qed (simp_all add: quote_unit_def escape_unit_def)
qed

lemma surrogate_bound: "is_lead u \<or> is_trail u \<Longrightarrow> u < 65536"
  by (auto simp: is_lead_def is_trail_def)

lemma parse_string_quote_units:
  "parse_string (quote_units s @ 0x22 # rest) = Some (s, rest)"
proof (induction s rule: quote_units.induct)
  case 1
  then show ?case by simp
next
  case (2 u)
  then show ?case
    by (simp add: parse_string_unicode_escape surrogate_bound parse_string_quote_unit
        del: parse_string.simps) simp
next
  case (3 u v us)
  show ?case
  proof (cases "is_lead u \<and> is_trail v")
    case True
    then have "parse_string (u # v # quote_units us @ 0x22 # rest)
        = map_option (\<lambda>(s, r). (u # s, r)) (map_option (\<lambda>(s, r). (v # s, r))
            (parse_string (quote_units us @ 0x22 # rest)))"
      by (auto simp: is_lead_def is_trail_def)
    with True 3 show ?thesis by simp
  next
    case False
    with 3 show ?thesis
      by (auto simp: parse_string_unicode_escape surrogate_bound parse_string_quote_unit
          simp del: parse_string.simps)
  qed
qed

subsection \<open>Numbers\<close>

lemma digits10_digits: "d \<in> set (digits10 n) \<Longrightarrow> is_digit d"
proof (induction n rule: digits10.induct)
  case (1 n)
  from "1.prems" have "d \<in> set (if n < 10 then [digit_char n]
      else digits10 (n div 10) @ [digit_char (n mod 10)])"
    by (subst (asm) digits10.simps) simp
  with "1.IH" show ?case
    by (auto simp: is_digit_def split: if_splits)
qed

lemma digits_value_snoc: "digits_value (ds @ [d]) = 10 * digits_value ds + (d - 0x30)"
  by (simp add: digits_value_def)

lemma digits_value_digits10: "digits_value (digits10 n) = n"
proof (induction n rule: digits10.induct)
  case (1 n)
  show ?case
  proof (cases "n < 10")
    case True
    then show ?thesis by (subst digits10.simps) (simp add: digits_value_def)
  next
    case False
    with 1 show ?thesis
      by (subst digits10.simps) (simp add: digits_value_snoc)
  qed
qed

lemma digits10_head:
  "\<exists>c ds. digits10 n = c # ds \<and> is_digit c \<and> (c = 0x30 \<longrightarrow> n = 0 \<and> ds = [])"
proof (induction n rule: digits10.induct)
  case (1 n)
  show ?case
  proof (cases "n < 10")
    case True
    then show ?thesis by (subst digits10.simps) (simp add: is_digit_def)
  next
    case False
    with 1 obtain c ds where "digits10 (n div 10) = c # ds" "is_digit c"
      "c = 0x30 \<longrightarrow> n div 10 = 0 \<and> ds = []" by auto
    with False show ?thesis
      by (subst digits10.simps) auto
  qed
qed

lemma takeWhile_nonnum: "nonnum r \<Longrightarrow> takeWhile is_digit r = []"
  by (cases r) (simp_all add: nonnum_def)

lemma dropWhile_nonnum: "nonnum r \<Longrightarrow> dropWhile is_digit r = r"
  by (cases r) (simp_all add: nonnum_def)

lemma int_part_digits10: "nonnum r \<Longrightarrow> int_part (digits10 n @ r) = Some (digits10 n, r)"
proof -
  assume r: "nonnum r"
  obtain c ds where d: "digits10 n = c # ds" "is_digit c" "c = 0x30 \<longrightarrow> n = 0 \<and> ds = []"
    using digits10_head by blast
  from digits10_digits [of _ n] d have "\<forall>d \<in> set ds. is_digit d" by simp
  with r d show ?thesis
    by (auto simp: int_part_def takeWhile_nonnum dropWhile_nonnum)
qed

lemma frac_part_nonnum: "nonnum r \<Longrightarrow> frac_part r = Some ([], r)"
  by (auto simp: frac_part_def nonnum_def split: list.splits)

lemma exp_part_nonnum: "nonnum r \<Longrightarrow> exp_part r = Some ([], r)"
  by (auto simp: exp_part_def nonnum_def split: list.splits)

lemma parse_number_number_text:
  assumes "nonnum r"
  shows "parse_number (number_text n @ r) = Some (JNum n, r)"
proof (cases "n < 0")
  case True
  then show ?thesis
    using assms
    by (simp add: parse_number_def number_text_def int_part_digits10 frac_part_nonnum
        exp_part_nonnum digits_value_digits10)
next
  case False
  obtain c ds where d: "digits10 (nat n) = c # ds" "is_digit c"
    using digits10_head by blast
  then have "c \<noteq> 0x2D" by (auto simp: is_digit_def)
  with d have "(case digits10 (nat n) @ r of [] \<Rightarrow> ([], digits10 (nat n) @ r)
      | c # r' \<Rightarrow> if c = 0x2D then ([c], r') else ([], digits10 (nat n) @ r))
      = ([], digits10 (nat n) @ r)"
    by simp
  with False assms show ?thesis
    by (simp add: parse_number_def number_text_def int_part_digits10 frac_part_nonnum
        exp_part_nonnum digits_value_digits10)
qed

subsection \<open>Values\<close>

declare parse_value.simps [simp del] parse_elements.simps [simp del] parse_members.simps [simp del]

lemma skip_ws_non_ws: "\<not> is_ws c \<Longrightarrow> skip_ws (c # cs) = c # cs"
  by (simp add: skip_ws_def)

lemma skip_ws_Nil: "skip_ws [] = []"
  by (simp add: skip_ws_def)

lemma value_start_facts:
  "value_start c \<Longrightarrow> \<not> is_ws c \<and> c \<noteq> 0x5D \<and> c \<noteq> 0x7D \<and> c \<noteq> 0x2C \<and> c \<noteq> 0x3A"
  by (auto simp: value_start_def is_ws_def is_digit_def)

lemma number_text_start: "\<exists>c cs. number_text n = c # cs \<and> (c = 0x2D \<or> is_digit c)"
  using digits10_head [of "nat n"] digits10_head [of "nat (- n)"]
  by (auto simp: number_text_def)

lemma stringify_start: "plain v \<Longrightarrow> \<exists>c cs. JSON_stringify v = c # cs \<and> value_start c"
proof (cases v)
  case (JNum n)
  then show ?thesis
    using number_text_start [of n] by (auto simp: value_start_def)
qed (auto simp: value_start_def str_def quote_string_def)

lemma parse_value_number:
  assumes "nonnum r"
  shows "parse_value (number_text n @ r) = Some (JNum n, r)"
proof -
  obtain c cs where c: "number_text n = c # cs" "c = 0x2D \<or> is_digit c"
    using number_text_start by blast
  then have "\<not> is_ws c" "c \<noteq> 0x5B" "c \<noteq> 0x7B" "c \<noteq> 0x22" "c \<noteq> 0x74" "c \<noteq> 0x66" "c \<noteq> 0x6E"
    by (auto simp: is_ws_def is_digit_def)
  then have "parse_value (c # cs @ r) = parse_number (c # cs @ r)"
    by (subst parse_value.simps) (simp add: skip_ws_non_ws)
  with c parse_number_number_text [OF assms, of n] show ?thesis by simp
qed

lemma parse_value_string:
  "parse_value (quote_string s @ r) = Some (JStr s, r)"
  by (subst parse_value.simps)
    (simp add: quote_string_def skip_ws_non_ws is_ws_def parse_string_quote_units)

lemma parse_value_literal:
  "parse_value (str ''null'' @ r) = Some (JNull, r)"
  "parse_value (str ''true'' @ r) = Some (JBool True, r)"
  "parse_value (str ''false'' @ r) = Some (JBool False, r)"
  by (subst parse_value.simps, simp add: str_def skip_ws_non_ws is_ws_def literal_def)+

lemma parse_value_empty_array: "parse_value (0x5B # 0x5D # r) = Some (JArr [], r)"
  by (subst parse_value.simps) (simp add: skip_ws_non_ws is_ws_def)

lemma parse_value_empty_object: "parse_value (0x7B # 0x7D # r) = Some (JObj [], r)"
  by (subst parse_value.simps) (simp add: skip_ws_non_ws is_ws_def)

lemma parse_value_array:
  "value_start c \<Longrightarrow>
   parse_value (0x5B # c # cs) = map_option (\<lambda>(vs, r). (JArr vs, r)) (parse_elements (c # cs))"
  by (subst parse_value.simps) (auto simp: skip_ws_non_ws is_ws_def dest: value_start_facts)

lemma parse_value_object:
  "parse_value (0x7B # 0x22 # cs) = map_option (\<lambda>(ms, r). (JObj ms, r)) (parse_members (0x22 # cs))"
  by (subst parse_value.simps) (auto simp: skip_ws_non_ws is_ws_def)

lemma nonnum_sep [simp]: "nonnum (0x2C # r)" "nonnum (0x5D # r)" "nonnum (0x7D # r)" "nonnum []"
  by (simp_all add: nonnum_def is_digit_def)

lemma parse_elements_commas:
  "vs \<noteq> [] \<Longrightarrow>
   \<forall>v \<in> set vs. plain v \<and> (\<forall>r. nonnum r \<longrightarrow> parse_value (JSON_stringify v @ r) = Some (v, r)) \<Longrightarrow>
   parse_elements (commas (map JSON_stringify vs) @ 0x5D # r) = Some (vs, r)"
proof (induction vs rule: list_nonempty_induct)
  case (single v)
  then have "JSON_stringify v \<noteq> []"
    using stringify_start [of v] by auto
  with single show ?case
    by (subst parse_elements.simps) (simp add: skip_ws_non_ws is_ws_def)
next
  case (cons v vs)
  obtain w ws where vs: "vs = w # ws" using cons.hyps by (cases vs) auto
  have ne: "JSON_stringify v \<noteq> []"
    using stringify_start [of v] cons.prems by auto
  have ih: "parse_elements (commas (map JSON_stringify vs) @ 0x5D # r) = Some (vs, r)"
    using cons.IH cons.prems by simp
  have pv: "parse_value (JSON_stringify v @ 0x2C # (commas (map JSON_stringify vs) @ 0x5D # r))
      = Some (v, 0x2C # (commas (map JSON_stringify vs) @ 0x5D # r))"
    using cons.prems by simp
  have "commas (map JSON_stringify (v # vs)) @ 0x5D # r
      = JSON_stringify v @ 0x2C # (commas (map JSON_stringify vs) @ 0x5D # r)"
    by (simp add: vs)
  moreover have "parse_elements (JSON_stringify v @ 0x2C # (commas (map JSON_stringify vs) @ 0x5D # r))
      = Some (v # vs, r)"
    using ne by (subst parse_elements.simps) (simp add: pv skip_ws_non_ws is_ws_def ih)
  ultimately show ?case by simp
qed

lemma stringify_object:
  "JSON_stringify (JObj ms) = 0x7B # commas (map member_text ms) @ [0x7D]"
  by (simp add: case_prod_unfold member_text_def [abs_def])

lemma parse_members_one:
  assumes pv: "parse_value (JSON_stringify v @ e # rest) = Some (v, e # rest)"
    and e: "e = 0x2C \<or> e = 0x7D"
  shows "parse_members (member_text (k, v) @ e # rest)
    = (if e = 0x2C then map_option (\<lambda>(ms, r). ((k, v) # ms, r)) (parse_members rest)
       else Some ([(k, v)], rest))"
proof -
  have ws: "\<not> is_ws e" using e by (auto simp: is_ws_def)
  have "member_text (k, v) @ e # rest
      = 0x22 # (quote_units k @ 0x22 # (0x3A # (JSON_stringify v @ e # rest)))"
    by (simp add: member_text_def quote_string_def)
  moreover have "parse_members (0x22 # (quote_units k @ 0x22 # (0x3A # (JSON_stringify v @ e # rest))))
      = (if e = 0x2C then map_option (\<lambda>(ms, r). ((k, v) # ms, r)) (parse_members rest)
         else Some ([(k, v)], rest))"
    using e ws
    by (subst parse_members.simps)
      (auto simp: skip_ws_non_ws is_ws_def parse_string_quote_units pv)
  ultimately show ?thesis by simp
qed

lemma parse_members_commas:
  "ms \<noteq> [] \<Longrightarrow>
   \<forall>m \<in> set ms. plain (snd m)
     \<and> (\<forall>r. nonnum r \<longrightarrow> parse_value (JSON_stringify (snd m) @ r) = Some (snd m, r)) \<Longrightarrow>
   parse_members (commas (map member_text ms) @ 0x7D # r) = Some (ms, r)"
proof (induction ms rule: list_nonempty_induct)
  case (single m)
  obtain k v where m: "m = (k, v)" by (cases m)
  with single have "parse_value (JSON_stringify v @ 0x7D # r) = Some (v, 0x7D # r)"
    by simp
  from parse_members_one [OF this, of k] show ?case
    by (simp add: m)
next
  case (cons m ms)
  obtain k v where m: "m = (k, v)" by (cases m)
  obtain m' ms' where ms: "ms = m' # ms'" using cons.hyps by (cases ms) auto
  have ih: "parse_members (commas (map member_text ms) @ 0x7D # r) = Some (ms, r)"
    using cons.IH cons.prems by simp
  have "parse_value (JSON_stringify v @ 0x2C # (commas (map member_text ms) @ 0x7D # r))
      = Some (v, 0x2C # (commas (map member_text ms) @ 0x7D # r))"
    using cons.prems m by simp
  from parse_members_one [OF this, of k] ih
  have "parse_members (member_text (k, v) @ 0x2C # (commas (map member_text ms) @ 0x7D # r))
      = Some ((k, v) # ms, r)"
    by simp
  then show ?case by (simp add: m ms)
qed

lemma parse_value_stringify:
  "plain v \<Longrightarrow> nonnum r \<Longrightarrow> parse_value (JSON_stringify v @ r) = Some (v, r)"
proof (induction v arbitrary: r)
  case JNull
  then show ?case by (simp add: parse_value_literal)
next
  case (JBool b)
  then show ?case by (simp add: parse_value_literal)
next
  case (JNum n)
  then show ?case by (simp add: parse_value_number)
next
  case (JFrac lit)
  then show ?case by simp
next
  case (JStr s)
  then show ?case by (simp add: parse_value_string)
next
  case (JArr vs)
  show ?case
  proof (cases vs)
    case Nil
    then show ?thesis by (simp add: parse_value_empty_array)
  next
    case (Cons w ws)
    have all: "\<forall>v \<in> set vs. plain v
        \<and> (\<forall>r. nonnum r \<longrightarrow> parse_value (JSON_stringify v @ r) = Some (v, r))"
      using JArr by (auto simp: list_all_iff)
    have ne: "vs \<noteq> []" using Cons by simp
    obtain c cs where c: "JSON_stringify w = c # cs" "value_start c"
      using stringify_start [of w] all Cons by auto
    then obtain cs' where cs': "commas (map JSON_stringify vs) = c # cs'"
      using Cons by (cases ws) auto
    have "parse_value (0x5B # c # (cs' @ 0x5D # r))
        = map_option (\<lambda>(vs, r). (JArr vs, r)) (parse_elements (c # (cs' @ 0x5D # r)))"
      using c(2) by (rule parse_value_array)
    moreover have "parse_elements (c # (cs' @ 0x5D # r)) = Some (vs, r)"
      using parse_elements_commas [OF ne all, of r] cs' by simp
    ultimately show ?thesis by (simp add: cs')
  qed
next
  case (JObj ms)
  show ?case
  proof (cases ms)
    case Nil
    then show ?thesis by (simp add: parse_value_empty_object)
  next
    case (Cons m ms')
    have all: "\<forall>m \<in> set ms. plain (snd m)
        \<and> (\<forall>r. nonnum r \<longrightarrow> parse_value (JSON_stringify (snd m) @ r) = Some (snd m, r))"
    proof
      fix m assume m: "m \<in> set ms"
      obtain k v where kv: "m = (k, v)" by (cases m)
      with m JObj.prems have "plain v" by (auto simp: list_all_iff)
      moreover have "\<forall>r. nonnum r \<longrightarrow> parse_value (JSON_stringify v @ r) = Some (v, r)"
        using JObj.IH [of m v] m kv \<open>plain v\<close> by auto
      ultimately show "plain (snd m)
        \<and> (\<forall>r. nonnum r \<longrightarrow> parse_value (JSON_stringify (snd m) @ r) = Some (snd m, r))"
        by (simp add: kv)
    qed
    have ne: "ms \<noteq> []" using Cons by simp
    obtain cs' where cs': "commas (map member_text ms) = 0x22 # cs'"
      using Cons by (cases ms') (auto simp: member_text_def quote_string_def)
    have "parse_value (0x7B # 0x22 # (cs' @ 0x7D # r))
        = map_option (\<lambda>(ms, r). (JObj ms, r)) (parse_members (0x22 # (cs' @ 0x7D # r)))"
      by (rule parse_value_object)
    moreover have "parse_members (0x22 # (cs' @ 0x7D # r)) = Some (ms, r)"
      using parse_members_commas [OF ne all, of r] cs' by simp
    ultimately show ?thesis by (simp add: stringify_object cs' del: JSON_stringify.simps)
  qed
qed

lemma JSON_parse_stringify: "plain v \<Longrightarrow> JSON_parse (JSON_stringify v) = Some v"
  using parse_value_stringify [of v "[]"] by (simp add: JSON_parse_def skip_ws_Nil)

subsection \<open>Every parser consumes input\<close>

lemma parse_string_consumes: "parse_string cs = Some (s, r) \<Longrightarrow> length r < length cs"
proof (induction cs arbitrary: s r rule: parse_string.induct)
  case 1
  then show ?case by simp
next
  case (2 u us)
  then show ?case
    by (auto split: if_splits list.splits option.splits) fastforce+
qed

lemma int_part_consumes: "int_part cs = Some (ip, r) \<Longrightarrow> length r < length cs"
  using length_dropWhile_le [of is_digit "tl cs"]
  by (auto simp: int_part_def split: list.splits if_splits)

lemma frac_part_consumes: "frac_part cs = Some (fp, r) \<Longrightarrow> length r \<le> length cs"
  using length_dropWhile_le [of is_digit "tl (tl cs)"]
  by (auto simp: frac_part_def split: list.splits if_splits)

lemma exp_digits_consumes: "exp_digits pre cs = Some (ep, r) \<Longrightarrow> length r \<le> length cs"
  using length_dropWhile_le [of is_digit "tl cs"]
  by (auto simp: exp_digits_def split: list.splits if_splits)

lemma exp_part_consumes: "exp_part cs = Some (ep, r) \<Longrightarrow> length r \<le> length cs"
  by (auto simp: exp_part_def split: list.splits if_splits dest!: exp_digits_consumes)

lemma parse_number_consumes: "parse_number cs = Some (v, r) \<Longrightarrow> length r < length cs"
proof -
  assume a: "parse_number cs = Some (v, r)"
  obtain sign cs1 where s: "(case cs of c # r \<Rightarrow> if c = 0x2D then ([c], r) else ([], cs) | [] \<Rightarrow> ([], cs)) = (sign, cs1)"
    by (cases "(case cs of c # r \<Rightarrow> if c = 0x2D then ([c], r) else ([], cs) | [] \<Rightarrow> ([], cs))")
  then have l1: "length cs1 \<le> length cs" by (auto split: list.splits if_splits)
  from a s obtain ip cs2 fp cs3 ep where
    "int_part cs1 = Some (ip, cs2)" "frac_part cs2 = Some (fp, cs3)" "exp_part cs3 = Some (ep, r)"
    by (auto simp: parse_number_def split: option.splits if_splits)
  with l1 show ?thesis
    by (auto dest!: int_part_consumes frac_part_consumes exp_part_consumes)
qed

lemma literal_consumes: "name \<noteq> [] \<Longrightarrow> literal name v cs = Some (x, r) \<Longrightarrow> length r < length cs"
  by (cases cs) (auto simp: literal_def str_def split: if_splits)

lemma parse_value_consumes:
  "(\<forall>v r. parse_value cs = Some (v, r) \<longrightarrow> length r < length cs)"
  "(\<forall>vs r. parse_elements cs1 = Some (vs, r) \<longrightarrow> length r < length cs1)"
  "(\<forall>ms r. parse_members cs2 = Some (ms, r) \<longrightarrow> length r < length cs2)"
proof (induction cs and cs1 and cs2 rule: parse_value_parse_elements_parse_members.induct)
  case (1 cs)
  show ?case
  proof (intro allI impI)
    fix v r
    assume a: "parse_value cs = Some (v, r)"
    then obtain c r0 where sk: "skip_ws cs = c # r0"
      by (subst (asm) parse_value.simps) (auto split: list.splits)
    then have l0: "length r0 < length cs" by (rule skip_ws_Cons_length)
    consider "c = 0x5B" | "c = 0x7B" | "c = 0x22" | "c = 0x74" | "c = 0x66" | "c = 0x6E"
      | "c \<noteq> 0x5B" "c \<noteq> 0x7B" "c \<noteq> 0x22" "c \<noteq> 0x74" "c \<noteq> 0x66" "c \<noteq> 0x6E"
      by blast
    then show "length r < length cs"
    proof cases
      case 1
      from a sk 1 obtain d r' where d: "skip_ws r0 = d # r'"
        by (subst (asm) parse_value.simps) (auto split: list.splits)
      show ?thesis
      proof (cases "d = 0x5D")
        case True
        with a sk 1 d have "r = r'"
          by (subst (asm) parse_value.simps) simp
        with skip_ws_Cons_length [OF d] l0 show ?thesis by simp
      next
        case False
        with a sk 1 d obtain vs where pe: "parse_elements r0 = Some (vs, r)"
          by (subst (asm) parse_value.simps) auto
        from "1.IH"(1) [OF sk 1 d False] pe have "length r < length r0" by blast
        with l0 show ?thesis by simp
      qed
    next
      case 2
      from a sk 2 obtain d r' where d: "skip_ws r0 = d # r'"
        by (subst (asm) parse_value.simps) (auto split: list.splits)
      show ?thesis
      proof (cases "d = 0x7D")
        case True
        with a sk 2 d have "r = r'"
          by (subst (asm) parse_value.simps) simp
        with skip_ws_Cons_length [OF d] l0 show ?thesis by simp
      next
        case False
        with a sk 2 d obtain ms where pm: "parse_members r0 = Some (ms, r)"
          by (subst (asm) parse_value.simps) auto
        have "c \<noteq> 0x5B" using 2 by simp
        from "1.IH"(2) [OF sk this 2 d False] pm have "length r < length r0" by blast
        with l0 show ?thesis by simp
      qed
    next
      case 3
      with a sk obtain s where "parse_string r0 = Some (s, r)"
        by (subst (asm) parse_value.simps) auto
      with parse_string_consumes l0 show ?thesis by fastforce
    next
      case 4
      with a sk have "literal ''true'' (JBool True) (c # r0) = Some (v, r)"
        by (subst (asm) parse_value.simps) auto
      from literal_consumes [OF _ this] l0 show ?thesis by simp
    next
      case 5
      with a sk have "literal ''false'' (JBool False) (c # r0) = Some (v, r)"
        by (subst (asm) parse_value.simps) auto
      from literal_consumes [OF _ this] l0 show ?thesis by simp
    next
      case 6
      with a sk have "literal ''null'' JNull (c # r0) = Some (v, r)"
        by (subst (asm) parse_value.simps) auto
      from literal_consumes [OF _ this] l0 show ?thesis by simp
    next
      case 7
      with a sk have "parse_number (c # r0) = Some (v, r)"
        by (subst (asm) parse_value.simps) auto
      from parse_number_consumes [OF this] l0 show ?thesis by simp
    qed
  qed
next
  case (2 cs)
  show ?case
  proof (intro allI impI)
    fix vs r
    assume a: "parse_elements cs = Some (vs, r)"
    then obtain v r1 where pv: "parse_value cs = Some (v, r1)" and l1: "length r1 < length cs"
      by (subst (asm) parse_elements.simps) (auto split: option.splits if_splits)
    from a pv l1 obtain c r2 where sk: "skip_ws r1 = c # r2"
      by (subst (asm) parse_elements.simps) (auto split: list.splits)
    from skip_ws_Cons_length [OF sk] l1 have l2: "length r2 < length cs" by simp
    show "length r < length cs"
    proof (cases "c = 0x2C")
      case True
      with a pv l1 sk obtain vs' where pe: "parse_elements r2 = Some (vs', r)"
        by (subst (asm) parse_elements.simps) auto
      from "2.IH"(2) [OF pv refl l1 sk True] pe have "length r < length r2" by blast
      with l2 show ?thesis by simp
    next
      case False
      with a pv l1 sk have "r = r2"
        by (subst (asm) parse_elements.simps) (auto split: if_splits)
      with l2 show ?thesis by simp
    qed
  qed
next
  case (3 cs)
  show ?case
  proof (intro allI impI)
    fix ms r
    assume a: "parse_members cs = Some (ms, r)"
    then obtain q r0 where sk: "skip_ws cs = q # r0" and q: "q = 0x22"
      by (subst (asm) parse_members.simps) (auto split: list.splits if_splits)
    from a sk q obtain k r1 where ps: "parse_string r0 = Some (k, r1)"
      by (subst (asm) parse_members.simps) (auto split: option.splits)
    from a sk q ps obtain c r2 where sk1: "skip_ws r1 = c # r2" and c: "c = 0x3A" "length r2 < length cs"
      by (subst (asm) parse_members.simps) (auto split: list.splits if_splits)
    from a sk q ps sk1 c obtain v r3 where pv: "parse_value r2 = Some (v, r3)" and l3: "length r3 < length cs"
      by (subst (asm) parse_members.simps) (auto split: option.splits if_splits)
    from a sk q ps sk1 c pv l3 obtain e r4 where sk3: "skip_ws r3 = e # r4"
      by (subst (asm) parse_members.simps) (auto split: list.splits)
    from skip_ws_Cons_length [OF sk3] l3 have l4: "length r4 < length cs" by simp
    show "length r < length cs"
    proof (cases "e = 0x2C")
      case True
      with a sk q ps sk1 c pv l3 sk3 obtain ms' where pm: "parse_members r4 = Some (ms', r)"
        by (subst (asm) parse_members.simps) auto
      have cc: "c = 0x3A \<and> length r2 < length cs" using c by simp
      from "3.IH"(2) [OF sk q ps refl sk1 cc pv refl l3 sk3 True] pm
      have "length r < length r4" by blast
      with l4 show ?thesis by simp
    next
      case False
      with a sk q ps sk1 c pv l3 sk3 have "r = r4"
        by (subst (asm) parse_members.simps) (auto split: if_splits)
      with l4 show ?thesis by simp
    qed
  qed
qed

subsection \<open>The stored collection\<close>

lemma as_todo_todo_json: "as_todo (todo_json t) = Some t"
  by (cases "priority t"; cases "createdAt t")
    (simp_all add: as_todo_def todo_json_def tail_fields_def str_def)

lemma those_todos_map: "those_todos (map todo_json ts) = Some ts"
  by (induction ts) (simp_all add: as_todo_todo_json)

lemma as_todos_todos_json: "as_todos (todos_json ts) = Some ts"
  by (simp add: as_todos_def todos_json_def those_todos_map)

lemma read_todo_todo_json: "read_todo (todo_json t) = Some t"
  by (cases "priority t"; cases "createdAt t")
    (simp_all add: read_todo_def todo_json_def field_def str_def)

lemma read_elements_map: "read_elements (map todo_json ts) = Some ts"
  by (induction ts) (simp_all add: read_todo_todo_json)

lemma read_todos_todos_json: "read_todos (todos_json ts) = Some ts"
  by (simp add: read_todos_def todos_json_def read_elements_map)

lemma plain_todo_json: "plain (todo_json t)"
  by (cases "priority t"; cases "createdAt t") (simp_all add: todo_json_def)

lemma plain_todos_json: "plain (todos_json ts)"
  by (simp add: todos_json_def list_all_iff plain_todo_json)

lemma stringify_todos_nonempty: "JSON_stringify (todos_json ts) \<noteq> []"
  by (simp add: todos_json_def)

lemma loaded_value_stringify:
  "loaded_value (Some (JSON_stringify (todos_json ts))) = todos_json ts"
  using stringify_todos_nonempty [of ts]
  by (simp add: loaded_value_def JSON_parse_stringify plain_todos_json del: JSON_stringify.simps)

text \<open>
  What \<open>saveTodos\<close> writes reads back as the collection, and so does the text of a
  collection that was stored with the members of its objects in another order, or with
  further members.
\<close>

lemma read_back:
  "\<not> useFirebase w \<Longrightarrow> read_todos (loaded_value (storage (saveTodos w st))) = Some (todos st)"
  by (simp add: saveTodos_def loaded_value_stringify read_todos_todos_json)

lemma loaded_ex_stored: "loaded_value (Some (JSON_stringify ex_stored)) = ex_stored"
proof -
  have "plain ex_stored" by (simp add: ex_stored_def)
  then have "JSON_parse (JSON_stringify ex_stored) = Some ex_stored" by (rule JSON_parse_stringify)
  moreover have "JSON_stringify ex_stored \<noteq> []" by (simp add: ex_stored_def)
  ultimately show ?thesis by (simp add: loaded_value_def)
qed

lemma load_ex_stored:
  "loadTodos local_window (init (Some (JSON_stringify ex_stored)))
     = Some ((init (Some (JSON_stringify ex_stored)))
         \<lparr>todos := [\<lparr>todo_id = str ''s'', todo_text = str ''x'', completed = False,
                     priority = None, createdAt = None\<rparr>]\<rparr>)"
proof -
  have "read_todos ex_stored
      = Some [\<lparr>todo_id = str ''s'', todo_text = str ''x'', completed = False,
                     priority = None, createdAt = None\<rparr>]"
    by (simp add: ex_stored_def read_todos_def read_todo_def field_def str_def)
  then show ?thesis
    by (simp add: loadTodos_def local_window_def useFirebase_def init_def loaded_ex_stored
        del: JSON_stringify.simps)
qed

text \<open>
  C5. In Local Mode, for every well-formed collection, what \<open>loadTodos\<close> reads right
  after \<open>saveTodos\<close> is the array of the same todos, field for field and in the same
  order: loading leaves the state as the save left it, the collection included.
\<close>

theorem load_after_save:
  assumes "\<not> useFirebase w" "list_all wf_todo (todos st)"
  shows "as_todos (loaded_value (storage (saveTodos w st))) = Some (todos st)
    \<and> loadTodos w (saveTodos w st) = Some (saveTodos w st)
    \<and> todos (saveTodos w st) = todos st"
  using assms(1)
  by (simp add: loadTodos_def saveTodos_def loaded_value_stringify as_todos_todos_json
      read_todos_todos_json)

theorem load_after_save_witness:
  "as_todos (loaded_value (storage (saveTodos local_window
      (ex_state [ex_todo ''a'' False ''high'',
         (ex_todo ''b'' True ''low'')\<lparr>createdAt := Some 1700000000000\<rparr>]))))
     = Some [ex_todo ''a'' False ''high'',
         (ex_todo ''b'' True ''low'')\<lparr>createdAt := Some 1700000000000\<rparr>]"
proof -
  have loc: "\<not> useFirebase local_window"
    by (simp add: useFirebase_def local_window_def)
  have wf: "list_all wf_todo (todos (ex_state [ex_todo ''a'' False ''high'',
         (ex_todo ''b'' True ''low'')\<lparr>createdAt := Some 1700000000000\<rparr>]))"
    by (simp add: ex_state_def ex_todo_def wf_todo_def wf_string_def str_def)
  show ?thesis
    using load_after_save [OF loc wf] by (simp add: ex_state_def)
qed

text \<open>
  The same from a state whose collection is another one, as it is when the script
  starts: \<open>loadTodos\<close> installs the collection that was saved.
\<close>

lemma load_installs_saved:
  "\<not> useFirebase w \<Longrightarrow>
     loadTodos w ((saveTodos w st)\<lparr>todos := ts\<rparr>) = Some (saveTodos w st)"
  by (simp add: loadTodos_def saveTodos_def loaded_value_stringify read_todos_todos_json)

text \<open>
  What \<open>loadTodos\<close> recovers from. In Local Mode it sets the collection to the empty
  sequence whenever there is no stored entry, the entry is the empty string, or the
  entry is not JSON text (\<open>JSON.parse\<close> throws).
\<close>

theorem loadTodos_recovers:
  assumes "\<not> useFirebase w"
    and "storage st = None \<or> storage st = Some []
      \<or> (\<exists>raw. storage st = Some raw \<and> JSON_parse raw = None)"
  shows "loaded_value (storage st) = JArr [] \<and> loadTodos w st = Some (st\<lparr>todos := []\<rparr>)"
  using assms by (auto simp: loadTodos_def loaded_value_def read_todos_def)

theorem loadTodos_recovers_witness:
  "JSON_parse (str ''{oops'') = None
   \<and> loaded_value (storage (ex_state [ex_todo ''a'' False ''high'']\<lparr>storage := Some (str ''{oops'')\<rparr>))
     = JArr []
   \<and> loadTodos local_window (ex_state [ex_todo ''a'' False ''high'']\<lparr>storage := Some (str ''{oops'')\<rparr>)
     = Some (ex_state []\<lparr>storage := Some (str ''{oops'')\<rparr>)"
proof -
  have loc: "\<not> useFirebase local_window"
    by (simp add: useFirebase_def local_window_def)
  have bad: "JSON_parse (str ''{oops'') = None"
    by (simp add: JSON_parse_def parse_value.simps parse_members.simps str_def skip_ws_def
        is_ws_def)
  then have st: "storage (ex_state [ex_todo ''a'' False ''high'']\<lparr>storage := Some (str ''{oops'')\<rparr>) = None
      \<or> storage (ex_state [ex_todo ''a'' False ''high'']\<lparr>storage := Some (str ''{oops'')\<rparr>) = Some []
      \<or> (\<exists>raw. storage (ex_state [ex_todo ''a'' False ''high'']\<lparr>storage := Some (str ''{oops'')\<rparr>)
            = Some raw \<and> JSON_parse raw = None)"
    by simp
  show ?thesis
    using bad loadTodos_recovers [OF loc st] by (simp add: ex_state_def)
qed

text \<open>
  C9 at the stored entry \<open>null\<close>, in Local Mode. The entry is JSON text, so
  \<open>JSON.parse\<close> does not throw, and \<open>loadTodos\<close> assigns what it returns: the collection
  is null, not the empty sequence, and no collection of todos. The \<open>renderTodos\<close> that
  follows \<open>loadTodos\<close> at the start of the script (line 244) spreads the collection and
  throws a TypeError. Likewise the entry \<open>[1]\<close> leaves the collection an array with
  the number 1. After an entry that is not JSON text the collection is the empty
  array, and the spread returns.
\<close>

theorem loadTodos_null_is_assigned:
  "loaded_value (Some (str ''null'')) = JNull
   \<and> loadTodos local_window (init (Some (str ''null''))) = None
   \<and> spread (loaded_value (Some (str ''null''))) = Inl TypeError
   \<and> loaded_value (Some (str ''[1]'')) = JArr [JNum 1]
   \<and> loadTodos local_window (init (Some (str ''[1]''))) = None
   \<and> loaded_value (Some (str ''{oops'')) = JArr []
   \<and> spread (loaded_value (Some (str ''{oops''))) = Inr []"
proof -
  have n: "JSON_parse (str ''null'') = Some JNull"
    by (simp add: JSON_parse_def parse_value.simps str_def skip_ws_def is_ws_def literal_def)
  have a: "JSON_parse (str ''[1]'') = Some (JArr [JNum 1])"
    by (simp add: JSON_parse_def parse_value.simps parse_elements.simps str_def skip_ws_def
        is_ws_def parse_number_def int_part_def frac_part_def exp_part_def is_digit_def
        digits_value_def)
  have b: "JSON_parse (str ''{oops'') = None"
    by (simp add: JSON_parse_def parse_value.simps parse_members.simps str_def skip_ws_def
        is_ws_def)
  have n': "loaded_value (Some (str ''null'')) = JNull"
    using n by (simp add: loaded_value_def) (simp add: str_def)
  have a': "loaded_value (Some (str ''[1]'')) = JArr [JNum 1]"
    using a by (simp add: loaded_value_def) (simp add: str_def)
  have b': "loaded_value (Some (str ''{oops'')) = JArr []"
    using b by (simp add: loaded_value_def)
  show ?thesis
    by (simp add: n' a' b' spread_def loadTodos_def init_def local_window_def useFirebase_def
        read_todos_def read_todo_def)
qed

section \<open>The operations of the list store\<close>

lemma find_id_None: "find (\<lambda>x. todo_id x = i) ts = None \<longleftrightarrow> i \<notin> set (map todo_id ts)"
  by (induction ts) auto

lemma mutate_first_split:
  "find P xs = Some t \<Longrightarrow>
   \<exists>pre post. xs = pre @ t # post \<and> P t \<and> (\<forall>x \<in> set pre. \<not> P x)
     \<and> mutate_first P f xs = pre @ f t # post"
proof (induction xs)
  case Nil
  then show ?case by simp
next
  case (Cons x xs)
  show ?case
  proof (cases "P x")
    case True
    with Cons.prems have "x = t" by simp
    with True have "x # xs = [] @ t # xs \<and> P t \<and> (\<forall>x \<in> set []. \<not> P x)
        \<and> mutate_first P f (x # xs) = [] @ f t # xs"
      by simp
    then show ?thesis by blast
  next
    case False
    with Cons.prems have "find P xs = Some t" by simp
    from Cons.IH [OF this] obtain pre post where
      "xs = pre @ t # post" "P t" "\<forall>x \<in> set pre. \<not> P x" "mutate_first P f xs = pre @ f t # post"
      by blast
    with False have "x # xs = (x # pre) @ t # post \<and> P t \<and> (\<forall>y \<in> set (x # pre). \<not> P y)
        \<and> mutate_first P f (x # xs) = (x # pre) @ f t # post"
      by simp
    then show ?thesis by blast
  qed
qed

lemma map_mutate_first:
  "(\<And>x. g (f x) = g x) \<Longrightarrow> map g (mutate_first P f xs) = map g xs"
  by (induction xs) auto

text \<open>
  C1, as the code has it. In Remote Mode, when the adapter's add call fails (it is
  called for a text that does not trim to the empty string), no alert is raised and the
  storage entry is not written, but line 109 falls through to the local path: the
  collection gains the new entity in front, and the list is rendered again from it.
\<close>

theorem addTodo_remote_failure_falls_back:
  "useFirebase w \<and> firebaseAddTodo w \<and> trim entered \<noteq> [] \<longrightarrow>
     alerts (addTodo w priorityEl random now Rejected entered st) = alerts st
     \<and> storage (addTodo w priorityEl random now Rejected entered st) = storage st
     \<and> todos (addTodo w priorityEl random now Rejected entered st)
         = new_todo (generateId random now) (trim entered) (or_default priorityEl (str ''medium''))
           # todos st
     \<and> rendered (addTodo w priorityEl random now Rejected entered st)
         = array_sort compareTodos (todos (addTodo w priorityEl random now Rejected entered st))"
  by (simp add: addTodo_def renderTodos_def updateEmptyState_def saveTodos_def Let_def)

theorem addTodo_remote_failure_falls_back_witness:
  "alerts (addTodo remote_window (Some (str ''low'')) (str ''0.4fzyo82mvyr'') 5 Rejected (str ''a'')
      (ex_state [ex_todo ''b'' False ''high''])) = []
   \<and> todos (addTodo remote_window (Some (str ''low'')) (str ''0.4fzyo82mvyr'') 5 Rejected (str ''a'')
      (ex_state [ex_todo ''b'' False ''high'']))
     = [new_todo (str ''4fzyo82m5'') (str ''a'') (str ''low''), ex_todo ''b'' False ''high'']"
  using addTodo_remote_failure_falls_back
      [where w = remote_window and entered = "str ''a''" and priorityEl = "Some (str ''low'')"
        and random = "str ''0.4fzyo82mvyr''" and now = 5
        and st = "ex_state [ex_todo ''b'' False ''high'']"]
  by (simp add: remote_window_def useFirebase_def ex_state_def trim_def is_space_def
      generateId_def or_default_def str_def)

text \<open>
  C1 as stated fails: in Remote Mode, after a failed add call the collection is not the
  one before the call.
\<close>

theorem addTodo_remote_failure_changes_collection:
  "todos (addTodo remote_window (Some (str ''high'')) (str ''0.4fzyo82mvyr'') 5 Rejected (str ''a'')
      (init None))
   = [new_todo (generateId (str ''0.4fzyo82mvyr'') 5) (str ''a'') (str ''high'')]
   \<and> todos (init None) = []
   \<and> rendered (addTodo remote_window (Some (str ''high'')) (str ''0.4fzyo82mvyr'') 5 Rejected
      (str ''a'') (init None)) \<noteq> rendered (init None)"
  by (simp add: addTodo_def remote_window_def useFirebase_def trim_def is_space_def init_def
      renderTodos_def updateEmptyState_def saveTodos_def Let_def or_default_def array_sort_def str_def)

text \<open>
  C2, as the code has it. In Local Mode, for a text whose trim is not empty, \<open>addTodo\<close>
  puts exactly one new entity in front of the collection: \<open>completed\<close> is false, the
  priority is the value of the priority selector (medium when the selector is missing or
  its value empty), the id is what \<open>generateId\<close> returns, and there is no
  \<open>createdAt\<close>. It then writes the collection to the storage entry, from which it
  reads back as it is, and renders it: the rows are the todos of the collection. The id
  is new in the collection when no id there equals it. When the rank of every todo of
  the collection is a number, the rows are in the order of the sort, and a new entity of
  priority high comes before every medium or low incomplete todo of the collection.
\<close>

theorem addTodo_local:
  assumes new_def:
      "new = new_todo (generateId random now) (trim entered) (or_default priorityEl (str ''medium''))"
    and st'_def: "st' = addTodo w priorityEl random now oc entered st"
    and loc: "\<not> useFirebase w"
    and ne: "trim entered \<noteq> []"
  shows "todos st' = new # todos st
    \<and> todo_id new = generateId random now
    \<and> completed new = False
    \<and> priority new = Some (or_default priorityEl (str ''medium''))
    \<and> createdAt new = None
    \<and> read_todos (loaded_value (storage st')) = Some (todos st')
    \<and> mset (rendered st') = mset (todos st')
    \<and> (generateId random now \<notin> set (ids st) \<and> distinct (ids st) \<longrightarrow> distinct (ids st'))
    \<and> (list_all rank_is_number (todos st') \<longrightarrow>
         rendered st' = array_sort compareTodos (todos st')
         \<and> (priorityEl = Some (str ''high'') \<longrightarrow>
              (\<forall>x \<in> set (todos st).
                 \<not> completed x
                 \<and> (priority x = Some (str ''medium'') \<or> priority x = Some (str ''low''))
                 \<longrightarrow> (\<exists>pre post. rendered st' = pre @ new # post \<and> x \<notin> set pre \<and> x \<in> set post))))"
proof -
  let ?st1 = "st\<lparr>todos := new # todos st\<rparr>"
  have st': "st' = renderTodos (saveTodos w ?st1)"
    using loc ne by (simp add: st'_def new_def addTodo_def Let_def)
  have t: "todos st' = new # todos st"
    by (simp add: st' renderTodos_def updateEmptyState_def saveTodos_def)
  have "storage st' = storage (saveTodos w ?st1)"
    by (simp add: st' renderTodos_def updateEmptyState_def)
  then have s: "read_todos (loaded_value (storage st')) = Some (todos st')"
    using read_back [OF loc, of ?st1] t by simp
  have r: "rendered st' = array_sort compareTodos (todos st')"
    by (simp add: st' renderTodos_def updateEmptyState_def saveTodos_def)
  have m: "mset (rendered st') = mset (todos st')"
    by (simp add: r mset_array_sort)
  have d: "generateId random now \<notin> set (ids st) \<and> distinct (ids st) \<longrightarrow> distinct (ids st')"
    using t by (simp add: ids_def new_def new_todo_def)
  have c: "todo_id new = generateId random now \<and> completed new = False
      \<and> priority new = Some (or_default priorityEl (str ''medium'')) \<and> createdAt new = None"
    by (simp add: new_def new_todo_def)
  have b: "priorityEl = Some (str ''high'') \<longrightarrow>
         (\<forall>x \<in> set (todos st).
            \<not> completed x \<and> (priority x = Some (str ''medium'') \<or> priority x = Some (str ''low''))
            \<longrightarrow> (\<exists>pre post. rendered st' = pre @ new # post \<and> x \<notin> set pre \<and> x \<in> set post))"
  proof (intro impI ballI)
    fix x
    assume h: "priorityEl = Some (str ''high'')"
      and x: "x \<in> set (todos st)"
      and p: "\<not> completed x \<and> (priority x = Some (str ''medium'') \<or> priority x = Some (str ''low''))"
    have "priority new = Some (str ''high'')"
      using h by (simp add: new_def new_todo_def or_default_def str_def)
    then have "rank new = Number 3" by (rule rank_of_priority)
    moreover have "rank x = Number 2 \<or> rank x = Number 1"
      using p rank_of_priority(1,2) [of x] by blast
    ultimately have "sort_compare (compareTodos new x) \<le> 0"
      using p by (auto simp: compareTodos_def subtract_def sort_compare_def new_def new_todo_def)
    moreover have "x \<in> set (array_sort compareTodos (todos st))"
      using x by (simp add: set_array_sort)
    ultimately have "\<exists>pre post.
        insert_sorted compareTodos new (array_sort compareTodos (todos st)) = pre @ new # post
        \<and> x \<notin> set pre \<and> x \<in> set post"
      by (intro insert_sorted_before)
    then show "\<exists>pre post. rendered st' = pre @ new # post \<and> x \<notin> set pre \<and> x \<in> set post"
      by (simp add: r t array_sort_def)
  qed
  from t s r m d b c show ?thesis by blast
qed

theorem addTodo_local_witness:
  "todos (addTodo local_window (Some (str ''high'')) (str ''0.4fzyo82mvyr'') 5 Resolved
      (str '' a '') (ex_state [ex_todo ''b'' False ''medium'']))
     = [new_todo (str ''4fzyo82m5'') (str ''a'') (str ''high''), ex_todo ''b'' False ''medium'']
   \<and> list_all rank_is_number
       [new_todo (str ''4fzyo82m5'') (str ''a'') (str ''high''), ex_todo ''b'' False ''medium'']
   \<and> (\<exists>pre post.
        rendered (addTodo local_window (Some (str ''high'')) (str ''0.4fzyo82mvyr'') 5 Resolved
          (str '' a '') (ex_state [ex_todo ''b'' False ''medium'']))
        = pre @ new_todo (str ''4fzyo82m5'') (str ''a'') (str ''high'') # post
        \<and> ex_todo ''b'' False ''medium'' \<notin> set pre \<and> ex_todo ''b'' False ''medium'' \<in> set post)"
proof -
  let ?st = "ex_state [ex_todo ''b'' False ''medium'']"
  let ?x = "ex_todo ''b'' False ''medium''"
  let ?new = "new_todo (str ''4fzyo82m5'') (str ''a'') (str ''high'')"
  have loc: "\<not> useFirebase local_window"
    by (simp add: useFirebase_def local_window_def)
  have ne: "trim (str '' a '') \<noteq> []"
    by (simp add: trim_def is_space_def str_def)
  have "rank ?new = Number 3"
    by (rule rank_of_priority) (simp add: new_todo_def)
  then have n: "list_all rank_is_number [?new, ?x]"
    by (simp add: rank_is_number_def ex_ranks)
  have new: "new_todo (generateId (str ''0.4fzyo82mvyr'') 5) (trim (str '' a ''))
      (or_default (Some (str ''high'')) (str ''medium'')) = ?new"
    by (simp add: generateId_def trim_def is_space_def or_default_def str_def)
  have x: "?x \<in> set (todos ?st)" "\<not> completed ?x"
      "priority ?x = Some (str ''medium'') \<or> priority ?x = Some (str ''low'')"
    by (simp_all add: ex_state_def ex_todo_def)
  have t: "todos ?st = [?x]"
    by (simp add: ex_state_def)
  note th = addTodo_local
        [where random = "str ''0.4fzyo82mvyr''" and now = 5 and priorityEl = "Some (str ''high'')"
          and oc = Resolved and st = ?st and w = local_window and entered = "str '' a ''",
          OF refl refl loc ne, unfolded new]
  let ?st' = "addTodo local_window (Some (str ''high'')) (str ''0.4fzyo82mvyr'') 5 Resolved
      (str '' a '') ?st"
  from th t have t': "todos ?st' = [?new, ?x]"
    by simp
  then have n': "list_all rank_is_number (todos ?st')"
    using n by simp
  from th have "list_all rank_is_number (todos ?st') \<longrightarrow>
      (\<forall>x \<in> set (todos ?st).
         \<not> completed x \<and> (priority x = Some (str ''medium'') \<or> priority x = Some (str ''low''))
         \<longrightarrow> (\<exists>pre post. rendered ?st' = pre @ ?new # post \<and> x \<notin> set pre \<and> x \<in> set post))"
    by blast
  with n' x have "\<exists>pre post. rendered ?st' = pre @ ?new # post \<and> ?x \<notin> set pre \<and> ?x \<in> set post"
    by blast
  with t' n show ?thesis by blast
qed

text \<open>
  C2 as stated fails. The entity that \<open>addTodo\<close> creates in Local Mode has no
  \<open>createdAt\<close>. Its id is not unique: \<open>generateId\<close> reads the random number and the
  clock, and two adds for which both are the same leave the collection with one id
  twice. And beside a todo whose priority is an inherited name the comparator returns
  NaN for the new high entity and for a medium one, while it puts the first before the
  second: it is no consistent comparator for the three, and what order \<open>sort\<close> gives
  them is left to the implementation.
\<close>

theorem addTodo_local_no_createdAt_no_fresh_id:
  "map createdAt
     (todos (addTodo local_window (Some (str ''high'')) (str ''0.4fzyo82mvyr'') 5 Resolved
        (str ''Buy milk'') (init None))) = [None]
   \<and> ids (addTodo local_window (Some (str ''high'')) (str ''0.4fzyo82mvyr'') 5 Resolved
        (str ''Buy bread'')
        (addTodo local_window (Some (str ''high'')) (str ''0.4fzyo82mvyr'') 5 Resolved
           (str ''Buy milk'') (init None)))
     = [str ''4fzyo82m5'', str ''4fzyo82m5'']
   \<and> compareTodos (new_todo (str ''4fzyo82m5'') (str ''Buy milk'') (str ''high''))
        (ex_todo ''c'' False ''constructor'') = NaN
   \<and> compareTodos (ex_todo ''c'' False ''constructor'') (ex_todo ''b'' False ''medium'') = NaN
   \<and> compareTodos (new_todo (str ''4fzyo82m5'') (str ''Buy milk'') (str ''high''))
        (ex_todo ''b'' False ''medium'') = Num (- 1)"
proof -
  have tr: "trim (str ''Buy milk'') \<noteq> []" "trim (str ''Buy bread'') \<noteq> []"
    by (simp_all add: trim_def is_space_def str_def)
  have g: "generateId (str ''0.4fzyo82mvyr'') 5 = str ''4fzyo82m5''"
    by (simp add: generateId_def str_def)
  have r: "rank (new_todo (str ''4fzyo82m5'') (str ''Buy milk'') (str ''high'')) = Number 3"
    by (rule rank_of_priority) (simp add: new_todo_def)
  have c: "completed (new_todo (str ''4fzyo82m5'') (str ''Buy milk'') (str ''high'')) = False"
      "completed (ex_todo ''c'' False ''constructor'') = False"
      "completed (ex_todo ''b'' False ''medium'') = False"
    by (simp_all add: new_todo_def ex_todo_def)
  have n: "compareTodos (new_todo (str ''4fzyo82m5'') (str ''Buy milk'') (str ''high''))
        (ex_todo ''c'' False ''constructor'') = NaN
   \<and> compareTodos (ex_todo ''c'' False ''constructor'') (ex_todo ''b'' False ''medium'') = NaN
   \<and> compareTodos (new_todo (str ''4fzyo82m5'') (str ''Buy milk'') (str ''high''))
        (ex_todo ''b'' False ''medium'') = Num (- 1)"
    by (simp add: compareTodos_def r c ex_ranks subtract_def)
  show ?thesis
    using tr n
    by (simp add: addTodo_def new_todo_def local_window_def useFirebase_def
        init_def renderTodos_def updateEmptyState_def saveTodos_def Let_def ids_def g)
qed

text \<open>
  C7. In Remote Mode, when the adapter's remove call fails, \<open>deleteTodo\<close> leaves the
  collection, the rendered list and the storage entry as they were, and raises its
  alert.
\<close>

theorem deleteTodo_remote_failure:
  "useFirebase w \<and> firebaseDeleteTodo w \<longrightarrow>
     todos (deleteTodo w Rejected i st) = todos st
     \<and> rendered (deleteTodo w Rejected i st) = rendered st
     \<and> storage (deleteTodo w Rejected i st) = storage st
     \<and> alerts (deleteTodo w Rejected i st) = alerts st @ [DeleteFailed]"
  by (simp add: deleteTodo_def)

theorem deleteTodo_remote_failure_witness:
  "todos (deleteTodo remote_window Rejected (str ''a'') (ex_state [ex_todo ''a'' False ''high'']))
     = [ex_todo ''a'' False ''high'']
   \<and> alerts (deleteTodo remote_window Rejected (str ''a'') (ex_state [ex_todo ''a'' False ''high'']))
     = [DeleteFailed]"
  using deleteTodo_remote_failure
      [where w = remote_window and i = "str ''a''" and st = "ex_state [ex_todo ''a'' False ''high'']"]
  by (simp add: remote_window_def useFirebase_def ex_state_def)

text \<open>
  C8. \<open>commitEdit\<close> with a new text that trims to the empty string is \<open>deleteTodo\<close>:
  the same state results (collection, storage entry, rendered list, alerts), whatever
  the window, the priority and the outcome of the remote call.
\<close>

theorem commitEdit_empty_is_deleteTodo:
  "trim newText = [] \<Longrightarrow> commitEdit w oc i newText newPriority st = deleteTodo w oc i st"
  by (simp add: commitEdit_def)

theorem commitEdit_empty_is_deleteTodo_witness:
  "trim (str ''  '') = []
   \<and> commitEdit local_window Resolved (str ''a'') (str ''  '') (Some (str ''low''))
        (ex_state [ex_todo ''a'' False ''high'', ex_todo ''b'' False ''low''])
     = deleteTodo local_window Resolved (str ''a'')
        (ex_state [ex_todo ''a'' False ''high'', ex_todo ''b'' False ''low''])
   \<and> todos (commitEdit local_window Resolved (str ''a'') (str ''  '') (Some (str ''low''))
        (ex_state [ex_todo ''a'' False ''high'', ex_todo ''b'' False ''low'']))
     = [ex_todo ''b'' False ''low'']"
proof -
  have h: "trim (str ''  '') = []"
    by (simp add: trim_def is_space_def str_def)
  show ?thesis
    using h
      commitEdit_empty_is_deleteTodo
        [OF h, where w = local_window and oc = Resolved and i = "str ''a''"
          and newPriority = "Some (str ''low'')"
          and st = "ex_state [ex_todo ''a'' False ''high'', ex_todo ''b'' False ''low'']"]
    by (simp add: deleteTodo_def local_window_def useFirebase_def ex_state_def ex_todo_def
        renderTodos_def updateEmptyState_def saveTodos_def str_def)
qed

text \<open>
  C10. In Local Mode, \<open>toggleCompleted\<close> for an id of the collection changes the
  \<open>completed\<close> field of the first entity with that id and nothing else of the
  collection: the entities before and after it, its other fields, the length and the
  order stay. For an id that is not in the collection the state stays as it is, the
  storage entry included.
\<close>

theorem toggleCompleted_local_frame:
  assumes "\<not> useFirebase w"
  shows "(i \<notin> set (ids st) \<longrightarrow> toggleCompleted w oc i c st = st)
    \<and> (i \<in> set (ids st) \<longrightarrow>
        (\<exists>pre t post.
           todos st = pre @ t # post \<and> todo_id t = i \<and> i \<notin> set (map todo_id pre)
           \<and> todos (toggleCompleted w oc i c st) = pre @ t\<lparr>completed := c\<rparr> # post))"
proof (intro conjI impI)
  assume "i \<notin> set (ids st)"
  then have "find (\<lambda>x. todo_id x = i) (todos st) = None"
    by (simp add: find_id_None ids_def)
  with assms show "toggleCompleted w oc i c st = st"
    by (simp add: toggleCompleted_def)
next
  assume "i \<in> set (ids st)"
  then obtain t where f: "find (\<lambda>x. todo_id x = i) (todos st) = Some t"
    using find_id_None [of i "todos st"] by (auto simp: ids_def)
  from mutate_first_split [OF f, of "\<lambda>x. x\<lparr>completed := c\<rparr>"] obtain pre post where
    "todos st = pre @ t # post" "todo_id t = i" "\<forall>x \<in> set pre. todo_id x \<noteq> i"
    "mutate_first (\<lambda>x. todo_id x = i) (\<lambda>x. x\<lparr>completed := c\<rparr>) (todos st)
       = pre @ t\<lparr>completed := c\<rparr> # post"
    by blast
  moreover have "todos (toggleCompleted w oc i c st)
      = mutate_first (\<lambda>x. todo_id x = i) (\<lambda>x. x\<lparr>completed := c\<rparr>) (todos st)"
    using assms f by (simp add: toggleCompleted_def renderTodos_def updateEmptyState_def saveTodos_def)
  ultimately show "\<exists>pre t post.
           todos st = pre @ t # post \<and> todo_id t = i \<and> i \<notin> set (map todo_id pre)
           \<and> todos (toggleCompleted w oc i c st) = pre @ t\<lparr>completed := c\<rparr> # post"
    by (intro exI [of _ pre] exI [of _ t] exI [of _ post]) auto
qed

theorem toggleCompleted_local_frame_witness:
  "toggleCompleted local_window Resolved (str ''z'') True
      (ex_state [ex_todo ''a'' False ''high'', ex_todo ''b'' False ''low''])
     = ex_state [ex_todo ''a'' False ''high'', ex_todo ''b'' False ''low'']
   \<and> (\<exists>pre t post.
        [ex_todo ''a'' False ''high'', ex_todo ''b'' False ''low''] = pre @ t # post
        \<and> todo_id t = str ''b''
        \<and> todos (toggleCompleted local_window Resolved (str ''b'') True
             (ex_state [ex_todo ''a'' False ''high'', ex_todo ''b'' False ''low'']))
           = pre @ t\<lparr>completed := True\<rparr> # post)"
proof -
  have loc: "\<not> useFirebase local_window"
    by (simp add: useFirebase_def local_window_def)
  have z: "str ''z'' \<notin> set (ids (ex_state [ex_todo ''a'' False ''high'', ex_todo ''b'' False ''low'']))"
    by (simp add: ids_def ex_state_def ex_todo_def str_def)
  have b: "str ''b'' \<in> set (ids (ex_state [ex_todo ''a'' False ''high'', ex_todo ''b'' False ''low'']))"
    by (simp add: ids_def ex_state_def ex_todo_def str_def)
  have t: "todos (ex_state [ex_todo ''a'' False ''high'', ex_todo ''b'' False ''low''])
      = [ex_todo ''a'' False ''high'', ex_todo ''b'' False ''low'']"
    by (simp add: ex_state_def)
  from z b t
    toggleCompleted_local_frame
      [OF loc, where i = "str ''z''" and oc = Resolved and c = True
        and st = "ex_state [ex_todo ''a'' False ''high'', ex_todo ''b'' False ''low'']"]
    toggleCompleted_local_frame
      [OF loc, where i = "str ''b''" and oc = Resolved and c = True
        and st = "ex_state [ex_todo ''a'' False ''high'', ex_todo ''b'' False ''low'']"]
  show ?thesis by (simp only: simp_thms) blast
qed

section \<open>Further properties of the operations\<close>

text \<open>
  \<open>renderTodos\<close> leaves the collection as it is. The rendered list holds the todos
  of the collection, each as often as the collection does, and the empty-state element
  is shown exactly when the collection is empty. When the rank of every todo of the
  collection is a number, no todo of the rendered list sorts strictly before an earlier
  one, and todos that compare equal are in the order of the collection.
\<close>

theorem renderTodos_sorted_stable:
  "todos (renderTodos st) = todos st
   \<and> mset (rendered (renderTodos st)) = mset (todos st)
   \<and> (emptyShown (renderTodos st) \<longleftrightarrow> todos st = [])
   \<and> (list_all rank_is_number (todos st) \<longrightarrow>
        sorted_wrt (\<lambda>a b. sort_compare (compareTodos a b) \<le> 0) (rendered (renderTodos st))
        \<and> (rank_is_number a \<longrightarrow>
             filter (\<lambda>b. sort_compare (compareTodos a b) = 0) (rendered (renderTodos st))
               = filter (\<lambda>b. sort_compare (compareTodos a b) = 0) (todos st)))"
  by (simp add: renderTodos_def updateEmptyState_def mset_array_sort sorted_render
      filter_array_sort list_all_iff)

theorem renderTodos_sorted_stable_witness:
  "list_all rank_is_number (todos (ex_state [ex_todo ''a'' True ''high'', ex_todo ''b'' False ''low'']))
   \<and> sorted_wrt (\<lambda>a b. sort_compare (compareTodos a b) \<le> 0)
       (rendered (renderTodos (ex_state [ex_todo ''a'' True ''high'', ex_todo ''b'' False ''low''])))"
proof -
  have n: "list_all rank_is_number
      (todos (ex_state [ex_todo ''a'' True ''high'', ex_todo ''b'' False ''low'']))"
    by (simp add: ex_state_def rank_is_number_def ex_ranks)
  show ?thesis
    using n renderTodos_sorted_stable
        [of "ex_state [ex_todo ''a'' True ''high'', ex_todo ''b'' False ''low'']"]
    by blast
qed

text \<open>
  \<open>addTodo\<close> with a text that trims to the empty string changes nothing, in either
  mode: no adapter call is made, nothing is stored or rendered.
\<close>

theorem addTodo_blank_ignored:
  "trim entered = [] \<Longrightarrow> addTodo w priorityEl random now oc entered st = st"
  by (simp add: addTodo_def)

theorem addTodo_blank_ignored_witness:
  "trim (str ''  '') = []
   \<and> addTodo local_window None (str ''0.4fzyo82mvyr'') 5 Resolved (str ''  '')
        (ex_state [ex_todo ''a'' False ''high''])
     = ex_state [ex_todo ''a'' False ''high'']"
proof -
  have h: "trim (str ''  '') = []"
    by (simp add: trim_def is_space_def str_def)
  show ?thesis
    using h addTodo_blank_ignored [OF h] by simp
qed

text \<open>
  \<open>deleteTodo\<close> in Local Mode removes every entity with the id and keeps the others
  in their order, writes the result to the storage entry, from which it reads back as
  it is, and renders it; no alert is raised, and for an id that is not in the
  collection the collection stays as it is.
\<close>

theorem deleteTodo_local:
  "\<not> useFirebase w \<Longrightarrow>
     todos (deleteTodo w oc i st) = filter (\<lambda>t. todo_id t \<noteq> i) (todos st)
     \<and> read_todos (loaded_value (storage (deleteTodo w oc i st))) = Some (todos (deleteTodo w oc i st))
     \<and> mset (rendered (deleteTodo w oc i st)) = mset (todos (deleteTodo w oc i st))
     \<and> alerts (deleteTodo w oc i st) = alerts st
     \<and> (i \<notin> set (ids st) \<longrightarrow> todos (deleteTodo w oc i st) = todos st)"
  by (auto simp: deleteTodo_def renderTodos_def updateEmptyState_def saveTodos_def ids_def
      filter_id_conv loaded_value_stringify read_todos_todos_json mset_array_sort
      simp del: JSON_stringify.simps)

theorem deleteTodo_local_witness:
  "todos (deleteTodo local_window Resolved (str ''a'')
      (ex_state [ex_todo ''a'' False ''high'', ex_todo ''b'' False ''low'', ex_todo ''a'' True ''low'']))
     = [ex_todo ''b'' False ''low'']"
proof -
  have loc: "\<not> useFirebase local_window"
    by (simp add: useFirebase_def local_window_def)
  show ?thesis
    using deleteTodo_local [OF loc, where oc = Resolved and i = "str ''a''"
        and st = "ex_state [ex_todo ''a'' False ''high'', ex_todo ''b'' False ''low'', ex_todo ''a'' True ''low'']"]
    by (simp add: ex_state_def ex_todo_def str_def)
qed

text \<open>
  \<open>commitEdit\<close> in Local Mode with a text that does not trim to the empty string:
  the first entity with the id gets the trimmed text and the new priority (its own
  priority when the new one is falsy, medium when that is falsy too), the rest of the
  collection stays; for an id that is not in the collection the state stays as it is.
\<close>

theorem commitEdit_local:
  assumes "\<not> useFirebase w" "trim newText \<noteq> []"
  shows "(i \<notin> set (ids st) \<longrightarrow> commitEdit w oc i newText newPriority st = st)
    \<and> (i \<in> set (ids st) \<longrightarrow>
        (\<exists>pre t post.
           todos st = pre @ t # post \<and> todo_id t = i \<and> i \<notin> set (map todo_id pre)
           \<and> todos (commitEdit w oc i newText newPriority st)
              = pre @ t\<lparr>todo_text := trim newText,
                        priority := Some (or_default (or_else newPriority (priority t)) (str ''medium''))\<rparr>
                # post))"
proof (intro conjI impI)
  assume "i \<notin> set (ids st)"
  then have "find (\<lambda>x. todo_id x = i) (todos st) = None"
    by (simp add: find_id_None ids_def)
  with assms show "commitEdit w oc i newText newPriority st = st"
    by (simp add: commitEdit_def Let_def)
next
  let ?f = "\<lambda>x. x\<lparr>todo_text := trim newText,
      priority := Some (or_default (or_else newPriority (priority x)) (str ''medium''))\<rparr>"
  assume "i \<in> set (ids st)"
  then obtain t where f: "find (\<lambda>x. todo_id x = i) (todos st) = Some t"
    using find_id_None [of i "todos st"] by (auto simp: ids_def)
  from mutate_first_split [OF f, of ?f] obtain pre post where
    "todos st = pre @ t # post" "todo_id t = i" "\<forall>x \<in> set pre. todo_id x \<noteq> i"
    "mutate_first (\<lambda>x. todo_id x = i) ?f (todos st) = pre @ ?f t # post"
    by blast
  moreover have "todos (commitEdit w oc i newText newPriority st)
      = mutate_first (\<lambda>x. todo_id x = i) ?f (todos st)"
    using assms f by (simp add: commitEdit_def renderTodos_def updateEmptyState_def saveTodos_def Let_def)
  ultimately show "\<exists>pre t post.
           todos st = pre @ t # post \<and> todo_id t = i \<and> i \<notin> set (map todo_id pre)
           \<and> todos (commitEdit w oc i newText newPriority st) = pre @ ?f t # post"
    by (intro exI [of _ pre] exI [of _ t] exI [of _ post]) auto
qed

theorem commitEdit_local_witness:
  "todos (commitEdit local_window Resolved (str ''b'') (str '' y '') (Some [])
      (ex_state [ex_todo ''a'' False ''high'', ex_todo ''b'' False ''low'']))
   = [ex_todo ''a'' False ''high'', (ex_todo ''b'' False ''low'')\<lparr>todo_text := str ''y''\<rparr>]"
proof -
  have loc: "\<not> useFirebase local_window"
    by (simp add: useFirebase_def local_window_def)
  have ne: "trim (str '' y '') \<noteq> []"
    by (simp add: trim_def is_space_def str_def)
  have b: "str ''b'' \<in> set (ids (ex_state [ex_todo ''a'' False ''high'', ex_todo ''b'' False ''low'']))"
    by (simp add: ids_def ex_state_def ex_todo_def str_def)
  from commitEdit_local [OF loc ne, where i = "str ''b''" and oc = Resolved and newPriority = "Some []"
        and st = "ex_state [ex_todo ''a'' False ''high'', ex_todo ''b'' False ''low'']"] b
  obtain pre t post where
    p: "todos (ex_state [ex_todo ''a'' False ''high'', ex_todo ''b'' False ''low'']) = pre @ t # post"
      "todo_id t = str ''b''" "str ''b'' \<notin> set (map todo_id pre)"
    and r: "todos (commitEdit local_window Resolved (str ''b'') (str '' y '') (Some [])
        (ex_state [ex_todo ''a'' False ''high'', ex_todo ''b'' False ''low'']))
      = pre @ t\<lparr>todo_text := trim (str '' y ''),
                  priority := Some (or_default (or_else (Some []) (priority t)) (str ''medium''))\<rparr> # post"
    by blast
  from p have "pre = [ex_todo ''a'' False ''high''] \<and> t = ex_todo ''b'' False ''low'' \<and> post = []"
    by (cases pre; cases "tl pre") (auto simp: ex_state_def ex_todo_def str_def Cons_eq_append_conv)
  with r show ?thesis
    by (simp add: ex_todo_def trim_def is_space_def or_default_def or_else_def truthy_def str_def)
qed

text \<open>
  In Remote Mode, when the adapter's update call fails, \<open>toggleCompleted\<close> and
  \<open>commitEdit\<close> (with a text that does not trim to the empty string) raise their
  alert and change nothing else.
\<close>

theorem remote_update_failure:
  "useFirebase w \<and> firebaseUpdateTodo w \<longrightarrow>
     toggleCompleted w Rejected i c st = st\<lparr>alerts := alerts st @ [ToggleFailed]\<rparr>
     \<and> (trim newText \<noteq> [] \<longrightarrow>
          commitEdit w Rejected i newText newPriority st = st\<lparr>alerts := alerts st @ [EditFailed]\<rparr>)"
  by (simp add: toggleCompleted_def commitEdit_def Let_def)

theorem remote_update_failure_witness:
  "alerts (toggleCompleted remote_window Rejected (str ''a'') True (ex_state [ex_todo ''a'' False ''high'']))
     = [ToggleFailed]
   \<and> todos (commitEdit remote_window Rejected (str ''a'') (str ''y'') None (ex_state [ex_todo ''a'' False ''high'']))
     = [ex_todo ''a'' False ''high'']"
  using remote_update_failure [where w = remote_window and i = "str ''a''" and c = True
      and newText = "str ''y''" and newPriority = None and st = "ex_state [ex_todo ''a'' False ''high'']"]
  by (simp add: remote_window_def useFirebase_def ex_state_def trim_def is_space_def str_def)

text \<open>
  The callback of the subscription replaces the collection by the items of the
  snapshot, each with a falsy priority replaced by medium, and renders it; the storage
  entry is not written. When the rank of every item is a number, the collection is in
  the order of the sort, and the rendered list is the collection.
\<close>

theorem onSnapshot_replaces:
  "mset (todos (onSnapshot items st))
     = mset (map (\<lambda>t. t\<lparr>priority := Some (or_default (priority t) (str ''medium''))\<rparr>) items)
   \<and> mset (rendered (onSnapshot items st)) = mset (todos (onSnapshot items st))
   \<and> (list_all rank_is_number items \<longrightarrow>
        todos (onSnapshot items st)
          = array_sort compareTodos
              (map (\<lambda>t. t\<lparr>priority := Some (or_default (priority t) (str ''medium''))\<rparr>) items)
        \<and> rendered (onSnapshot items st) = todos (onSnapshot items st))
   \<and> storage (onSnapshot items st) = storage st
   \<and> list_all (\<lambda>t. truthy (priority t)) (todos (onSnapshot items st))"
proof -
  let ?f = "\<lambda>t. t\<lparr>priority := Some (or_default (priority t) (str ''medium''))\<rparr>"
  have "list_all (\<lambda>t. truthy (priority t)) (map ?f items)"
    by (induction items) (auto simp: truthy_def or_default_def str_def split: option.splits)
  then have 1: "list_all (\<lambda>t. truthy (priority t)) (todos (onSnapshot items st))"
    by (simp add: onSnapshot_def renderTodos_def updateEmptyState_def list_all_iff set_array_sort)
  have r: "rank (?f t) = rank t" for t
    by (cases "priority t") (auto simp: rank_def or_default_def str_def)
  have 2: "rendered (onSnapshot items st) = todos (onSnapshot items st)"
    if "list_all rank_is_number items"
  proof -
    have "\<forall>t\<in>set (map ?f items). rank_is_number t"
      using that by (simp add: list_all_iff rank_is_number_def r)
    from array_sort_sorted [OF sorted_render [OF this]] show ?thesis
      by (simp add: onSnapshot_def renderTodos_def updateEmptyState_def)
  qed
  show ?thesis
    using 1 2 by (simp add: onSnapshot_def renderTodos_def updateEmptyState_def mset_array_sort)
qed

theorem onSnapshot_replaces_witness:
  "list_all rank_is_number [ex_todo ''a'' True ''high'', ex_todo ''b'' False ''low'']
   \<and> rendered (onSnapshot [ex_todo ''a'' True ''high'', ex_todo ''b'' False ''low''] (init None))
     = todos (onSnapshot [ex_todo ''a'' True ''high'', ex_todo ''b'' False ''low''] (init None))"
proof -
  have n: "list_all rank_is_number [ex_todo ''a'' True ''high'', ex_todo ''b'' False ''low'']"
    by (simp add: rank_is_number_def ex_ranks)
  show ?thesis
    using n onSnapshot_replaces
        [of "[ex_todo ''a'' True ''high'', ex_todo ''b'' False ''low'']" "init None"]
    by blast
qed

section \<open>Runs and the ids of the collection\<close>

lemma ids_render [simp]: "ids (renderTodos st) = ids st"
  by (simp add: ids_def renderTodos_def updateEmptyState_def)

lemma ids_save [simp]: "ids (saveTodos w st) = ids st"
  by (simp add: ids_def saveTodos_def)

lemma ids_add:
  "ids (addTodo w priorityEl random now oc entered st)
     = (if reaches_local_add w oc entered then generateId random now # ids st else ids st)"
  by (simp add: addTodo_def reaches_local_add_def Let_def) (simp add: ids_def new_todo_def)

lemma ids_delete:
  "ids (deleteTodo w oc i st) = ids st
   \<or> ids (deleteTodo w oc i st) = filter (\<lambda>j. j \<noteq> i) (ids st)"
  by (cases oc) (simp_all add: deleteTodo_def, simp_all add: ids_def filter_map comp_def)

lemma ids_toggle: "ids (toggleCompleted w oc i c st) = ids st"
  by (cases oc)
    (auto simp: toggleCompleted_def split: option.splits, auto simp: ids_def map_mutate_first)

lemma ids_commit:
  "ids (commitEdit w oc i newText newPriority st) = ids st
   \<or> ids (commitEdit w oc i newText newPriority st) = filter (\<lambda>j. j \<noteq> i) (ids st)"
proof (cases "trim newText = []")
  case True
  then show ?thesis using ids_delete [of w oc i st] by (simp add: commitEdit_def)
next
  case False
  then have "ids (commitEdit w oc i newText newPriority st) = ids st"
    by (cases oc)
      (auto simp: commitEdit_def split: option.splits, auto simp: ids_def map_mutate_first)
  then show ?thesis by simp
qed

lemma step_distinct:
  assumes "distinct (ids st)" "event_ok w e st" "step w e st = Some st'"
  shows "distinct (ids st')"
proof (cases e)
  case (Add priorityEl random now oc entered)
  with assms ids_add [of w priorityEl random now oc entered st] show ?thesis
    by (auto split: if_splits)
next
  case (Delete oc i)
  with assms ids_delete [of w oc i st] show ?thesis by auto
next
  case (Toggle oc i c)
  with assms ids_toggle [of w oc i c st] show ?thesis by auto
next
  case (Commit oc i newText newPriority)
  with assms ids_commit [of w oc i newText newPriority st] show ?thesis by auto
next
  case Load
  with assms show ?thesis by auto
next
  case StartFirebase
  with assms show ?thesis by (auto simp: startFirebaseMode_def ids_def renderTodos_def updateEmptyState_def)
next
  case (Snapshot items)
  with assms show ?thesis
    by (auto simp: onSnapshot_def ids_def renderTodos_def updateEmptyState_def distinct_array_sort comp_def)
qed

text \<open>
  C6, as the code has it. The ids of the collection stay pairwise distinct along every
  run of add, delete, toggle, commit-edit, load, start of Remote Mode and remote
  snapshot in which each id that \<open>generateId\<close> returns is not yet in the collection
  and each stored or remote collection has no id twice (\<open>run_ok\<close>): the script checks
  neither. A stored collection is an array of objects with the fields of a todo, their
  members in any order and beside any others.
\<close>

theorem ids_unique_along_run:
  "distinct (ids st) \<Longrightarrow> run_ok evs st \<Longrightarrow> run evs st = Some st' \<Longrightarrow> distinct (ids st')"
proof (induction evs arbitrary: st)
  case Nil
  then show ?case by simp
next
  case (Cons we evs)
  obtain w e where we: "we = (w, e)" by (cases we)
  from Cons.prems we obtain st1 where s: "step w e st = Some st1" and r: "run evs st1 = Some st'"
    by (auto split: option.splits)
  from Cons.prems we s have ok: "event_ok w e st" "run_ok evs st1" by auto
  from step_distinct [OF Cons.prems(1) ok(1) s] have "distinct (ids st1)" .
  from Cons.IH [OF this ok(2) r] show ?case .
qed

lemma ids_addTodo_local:
  "ids (addTodo local_window priorityEl random now oc entered st)
     = (if trim entered = [] then ids st else generateId random now # ids st)"
  by (simp add: addTodo_def Let_def local_window_def useFirebase_def)
    (simp add: ids_def new_todo_def)

theorem ids_unique_along_run_witness:
  "distinct (ids (init (Some (JSON_stringify ex_stored))))
   \<and> run_ok ex_run (init (Some (JSON_stringify ex_stored)))
   \<and> (\<exists>st'. run ex_run (init (Some (JSON_stringify ex_stored))) = Some st' \<and> distinct (ids st'))"
proof -
  let ?st = "init (Some (JSON_stringify ex_stored))"
  have d0: "distinct (ids ?st)"
    by (simp add: ids_def init_def)
  have ok: "run_ok ex_run ?st"
    by (simp add: ex_run_def load_ex_stored ids_addTodo_local ids_toggle generateId_def trim_def
        is_space_def str_def del: JSON_stringify.simps)
      (simp add: ids_def init_def)
  obtain st' where r: "run ex_run ?st = Some st'"
    by (simp add: ex_run_def load_ex_stored del: JSON_stringify.simps)
  from ids_unique_along_run [OF d0 ok r] r d0 ok show ?thesis by blast
qed

text \<open>
  C6 as stated fails, in each of the three ways an id enters the collection. Two adds
  for which \<open>Math.random()\<close> and \<open>Date.now()\<close> return the same leave the collection
  with one id twice. The callback of the subscription installs the snapshot it is
  given, and a snapshot with an id twice leaves the collection with that id twice. In
  Local Mode \<open>loadTodos\<close> installs the stored collection, and a stored collection with
  an id twice (here the text that \<open>saveTodos\<close> writes for one) does the same.
\<close>

theorem duplicate_ids_reachable:
  "map_option ids
     (run [(local_window, Add (Some (str ''high'')) (str ''0.4fzyo82mvyr'') 5 Resolved (str ''a'')),
           (local_window, Add (Some (str ''low'')) (str ''0.4fzyo82mvyr'') 5 Resolved (str ''b''))]
        (init None))
     = Some [str ''4fzyo82m5'', str ''4fzyo82m5'']
   \<and> map_option ids
     (run [(remote_window, StartFirebase),
           (remote_window, Snapshot [ex_todo ''a'' False ''high'', ex_todo ''a'' True ''low''])]
        (init None))
     = Some [str ''a'', str ''a'']
   \<and> map_option ids
     (run [(local_window, Load)]
        (init (Some (JSON_stringify
           (todos_json [ex_todo ''a'' False ''high'', ex_todo ''a'' True ''low''])))))
     = Some [str ''a'', str ''a'']"
proof -
  have tr: "trim (str ''a'') \<noteq> []" "trim (str ''b'') \<noteq> []"
    by (simp_all add: trim_def is_space_def str_def)
  have g: "generateId (str ''0.4fzyo82mvyr'') 5 = str ''4fzyo82m5''"
    by (simp add: generateId_def str_def)
  have "map_option ids
     (run [(local_window, Add (Some (str ''high'')) (str ''0.4fzyo82mvyr'') 5 Resolved (str ''a'')),
           (local_window, Add (Some (str ''low'')) (str ''0.4fzyo82mvyr'') 5 Resolved (str ''b''))]
        (init None))
     = Some [str ''4fzyo82m5'', str ''4fzyo82m5'']"
    using tr
    by (simp add: addTodo_def new_todo_def local_window_def useFirebase_def
        init_def renderTodos_def updateEmptyState_def saveTodos_def Let_def ids_def g)
  moreover have "map_option ids
     (run [(remote_window, StartFirebase),
           (remote_window, Snapshot [ex_todo ''a'' False ''high'', ex_todo ''a'' True ''low''])]
        (init None))
     = Some [str ''a'', str ''a'']"
  proof -
    have c: "sort_compare (compareTodos
        ((ex_todo ''a'' False ''high'')\<lparr>priority :=
           Some (or_default (priority (ex_todo ''a'' False ''high'')) (str ''medium''))\<rparr>)
        ((ex_todo ''a'' True ''low'')\<lparr>priority :=
           Some (or_default (priority (ex_todo ''a'' True ''low'')) (str ''medium''))\<rparr>)) \<le> 0"
      by (simp add: compareTodos_def sort_compare_def ex_todo_def)
    show ?thesis
      using c
      by (simp add: onSnapshot_def startFirebaseMode_def renderTodos_def updateEmptyState_def
          ids_def init_def array_sort_def)
        (simp add: ex_todo_def)
  qed
  moreover have "map_option ids
     (run [(local_window, Load)]
        (init (Some (JSON_stringify
           (todos_json [ex_todo ''a'' False ''high'', ex_todo ''a'' True ''low''])))))
     = Some [str ''a'', str ''a'']"
    by (simp add: loadTodos_def local_window_def useFirebase_def init_def loaded_value_stringify
        read_todos_todos_json ids_def del: JSON_stringify.simps)
      (simp add: ex_todo_def)
  ultimately show ?thesis by simp
qed

end
